theory Spec2Isabelle
  imports Main "HOL-Library.Char_ord" "HOL-Library.List_Lexorder" "HOL-Library.Product_Lexorder"
    "HOL-Library.Multiset" "HOL-Library.Sublist"
begin

section \<open>The rename utility (src/main.cpp)\<close>

text \<open>
  The program is one function, \<open>rename\<close>, called by \<open>main\<close> on the parsed command line.
  It compiles the pattern, resolves the base path, collects the regular files below it,
  sorts them and, for each one, computes a new file name by regular-expression
  substitution, reports it and renames the file.

  Everything the function does to the outside goes through the C++ standard library:
  \<open>std::regex\<close>, \<open>std::filesystem\<close> and the two output streams. The embedding keeps the
  program's own control flow and takes the library operations whose result depends on the
  environment (the regular-expression engine and the file system) as a record of functions,
  so that every theorem about the pipeline holds for any engine and any file system.
  The operations on path names, which are pure string functions, are written out.
\<close>

subsection \<open>Path names (std::filesystem::path on POSIX)\<close>

text \<open>
  A \<open>std::filesystem::path\<close> holds its path name as a string; on POSIX the native and the
  generic format coincide, the separator is \<open>/\<close> and there are no root names.
\<close>

definition separator :: char where
  "separator = CHR ''/''"

text \<open>\<open>path::filename()\<close>: the text after the last separator (empty when there is none).\<close>

definition filename :: "string \<Rightarrow> string" where
  "filename p = rev (takeWhile (\<lambda>c. c \<noteq> separator) (rev p))"

text \<open>\<open>path::remove_filename()\<close>: the path name up to and including its last separator.\<close>

definition remove_filename :: "string \<Rightarrow> string" where
  "remove_filename p = rev (dropWhile (\<lambda>c. c \<noteq> separator) (rev p))"

definition has_filename :: "string \<Rightarrow> bool" where
  "has_filename p = (filename p \<noteq> [])"

text \<open>\<open>path::has_root_directory()\<close>, which on POSIX is also \<open>path::is_absolute()\<close>.\<close>

definition has_root_directory :: "string \<Rightarrow> bool" where
  "has_root_directory p = (case p of [] \<Rightarrow> False | c # _ \<Rightarrow> c = separator)"

definition is_absolute :: "string \<Rightarrow> bool" where
  "is_absolute p = has_root_directory p"

text \<open>
  \<open>path::operator/=\<close>: an absolute right operand replaces the path; otherwise the operand
  is appended, after a separator when the path ends in a file name.
\<close>

definition append_path :: "string \<Rightarrow> string \<Rightarrow> string" where
  "append_path p q =
     (if is_absolute q \<or> p = [] then q
      else if has_filename p then p @ [separator] @ q
      else p @ q)"

text \<open>\<open>path::replace_filename(r)\<close> is \<open>remove_filename()\<close> followed by \<open>operator/=(r)\<close>.\<close>

definition replace_filename :: "string \<Rightarrow> string \<Rightarrow> string" where
  "replace_filename p r = append_path (remove_filename p) r"

text \<open>
  \<open>path::compare\<close> orders paths by root directory first (a path without one is smaller)
  and then lexicographically by the elements of the relative path, each compared as a
  string of unsigned bytes. The elements are the non-empty pieces between separators,
  followed by an empty element when the path ends in a separator.
\<close>

fun split_at_separators :: "string \<Rightarrow> string \<Rightarrow> string list" where
  "split_at_separators acc [] = [rev acc]"
| "split_at_separators acc (c # cs) =
     (if c = separator then rev acc # split_at_separators [] cs
      else split_at_separators (c # acc) cs)"

definition relative_path_elements :: "string \<Rightarrow> string list" where
  "relative_path_elements p =
     (let names = filter (\<lambda>e. e \<noteq> []) (split_at_separators [] p)
      in if names \<noteq> [] \<and> \<not> has_filename p then names @ [[]] else names)"

definition path_key :: "string \<Rightarrow> bool \<times> string list" where
  "path_key p = (has_root_directory p, relative_path_elements p)"

subsection \<open>The environment: regular-expression engine and file system\<close>

text \<open>
  A library call that throws is a function into a sum: \<open>Inl what\<close> carries the text of
  \<open>e.what()\<close>. \<open>'rx\<close> is the compiled pattern (\<open>std::regex\<close>), \<open>'fs\<close> the state of the
  file system. A directory iterator is lazy: it yields entries one by one and may throw
  at any point, so it is modelled by the entries it yields and the error that ends it, if any.
  \<open>current_path\<close> reads the current directory of the process, which the program never
  changes and no rename of a regular file can change: it is the same throughout a run.
\<close>

record ('fs, 'rx) sys =
  regex_assign :: "string \<Rightarrow> string + 'rx"
  regex_replace :: "'rx \<Rightarrow> string \<Rightarrow> string \<Rightarrow> string + string"
  current_path :: "string + string"
  directory_iterator :: "'fs \<Rightarrow> string \<Rightarrow> string list \<times> string option"
  recursive_directory_iterator :: "'fs \<Rightarrow> string \<Rightarrow> string list \<times> string option"
  is_regular_file :: "'fs \<Rightarrow> string \<Rightarrow> string + bool"
  fs_rename :: "'fs \<Rightarrow> string \<Rightarrow> string \<Rightarrow> string + 'fs"

text \<open>
  What the process does to the outside: the file system, the lines written to
  \<open>std::cout\<close> and \<open>std::cerr\<close> (each ends in \<open>std::endl\<close>), and the file-system
  operations it issued, in order.
\<close>

datatype fs_call = Iterate bool string | Rename string string

record 'fs world =
  fs :: 'fs
  cout :: "string list"
  cerr :: "string list"
  calls :: "fs_call list"

text \<open>
  How a function ends: it returns, it calls \<open>exit\<close>, or an exception leaves it uncaught
  (\<open>std::terminate\<close>; the pending output line is lost with the stream buffer).
\<close>

datatype ctl = Returned | Exit int | Terminated

subsection \<open>The program\<close>

definition error_prefix :: string where
  "error_prefix = ''rename: ''"

definition EXIT_FAILURE :: int where
  "EXIT_FAILURE = 1"

record arguments =
  pattern :: string
  replacement :: string
  path :: "string option"
  dry_run :: bool
  recursive :: bool
  quiet :: bool

text \<open>The handler of every fatal catch block: print the message and \<open>exit(EXIT_FAILURE)\<close>.\<close>

definition report_error :: "string \<Rightarrow> 'fs world \<Rightarrow> 'fs world" where
  "report_error what w = w\<lparr>cerr := cerr w @ [error_prefix @ what]\<rparr>"

definition fatal :: "string \<Rightarrow> 'fs world \<Rightarrow> ctl \<times> 'fs world" where
  "fatal what w = (Exit EXIT_FAILURE, report_error what w)"

text \<open>
  \<open>iterator_to_files_transform\<close> (lines 102-106): walk the iterator, keep the entries for
  which \<open>is_regular_file\<close> holds. The filter runs while the iterator advances, so the first
  exception, of either, ends the walk.
\<close>

fun iterator_to_files_transform ::
  "('fs, 'rx) sys \<Rightarrow> 'fs \<Rightarrow> string list \<times> string option \<Rightarrow> string + string list" where
  "iterator_to_files_transform sys f ([], None) = Inr []"
| "iterator_to_files_transform sys f ([], Some what) = Inl what"
| "iterator_to_files_transform sys f (e # es, end) =
     (case is_regular_file sys f e of
        Inl what \<Rightarrow> Inl what
      | Inr keep \<Rightarrow>
          (case iterator_to_files_transform sys f (es, end) of
             Inl what \<Rightarrow> Inl what
           | Inr files \<Rightarrow> Inr (if keep then e # files else files)))"

text \<open>
  \<open>std::filesystem::absolute(p)\<close>: throws for the empty path and when the current
  directory cannot be read; an absolute path is returned as it is, a relative one is
  appended to the current directory (nothing is normalised).
\<close>

definition absolute :: "('fs, 'rx) sys \<Rightarrow> string \<Rightarrow> string option" where
  "absolute sys p =
     (if p = [] then None
      else if is_absolute p then Some p
      else (case current_path sys of Inl what \<Rightarrow> None | Inr cwd \<Rightarrow> Some (append_path cwd p)))"

text \<open>The lambda \<open>path_display_name\<close> (lines 138-140); \<open>None\<close> when \<open>absolute\<close> throws.\<close>

definition path_display_name :: "('fs, 'rx) sys \<Rightarrow> bool \<Rightarrow> string \<Rightarrow> string option" where
  "path_display_name sys rec p = (if rec then absolute sys p else Some (filename p))"

text \<open>
  Lines 137-144. The operands of \<open><<\<close> are evaluated left to right, and nothing reaches
  the stream's reader before \<open>std::endl\<close>: when the second \<open>absolute\<close> throws, no line
  has been written.
\<close>

definition report_line :: "bool \<Rightarrow> string \<Rightarrow> string \<Rightarrow> string" where
  "report_line dry src dst = src @ '' -> '' @ (if dry then ''(dry run)'' else '''') @ dst"

definition report :: "('fs, 'rx) sys \<Rightarrow> arguments \<Rightarrow> string \<Rightarrow> string \<Rightarrow> 'fs world \<Rightarrow> 'fs world option" where
  "report sys args in_entry out_entry w =
     (if \<not> quiet args then
        (case path_display_name sys (recursive args) in_entry of
           None \<Rightarrow> None
         | Some src \<Rightarrow>
             (case path_display_name sys (recursive args) out_entry of
                None \<Rightarrow> None
              | Some dst \<Rightarrow> Some (w\<lparr>cout := cout w @ [report_line (dry_run args) src dst]\<rparr>)))
      else Some w)"

text \<open>Lines 146-152: the rename itself, whose failure is reported and goes no further.\<close>

definition apply_rename :: "('fs, 'rx) sys \<Rightarrow> arguments \<Rightarrow> string \<Rightarrow> string \<Rightarrow> 'fs world \<Rightarrow> 'fs world" where
  "apply_rename sys args in_entry out_entry w =
     (if \<not> dry_run args then
        (let w' = w\<lparr>calls := calls w @ [Rename in_entry out_entry]\<rparr>
         in case fs_rename sys (fs w) in_entry out_entry of
              Inl what \<Rightarrow> report_error what w'
            | Inr f' \<Rightarrow> w'\<lparr>fs := f'\<rparr>)
      else w)"

text \<open>The body of the loop (lines 123-153) for one entry.\<close>

definition rename_entry ::
  "('fs, 'rx) sys \<Rightarrow> arguments \<Rightarrow> 'rx \<Rightarrow> string \<Rightarrow> 'fs world \<Rightarrow> ctl \<times> 'fs world" where
  "rename_entry sys args pat in_entry w =
     (let in_filename = filename in_entry
      in case regex_replace sys pat in_filename (replacement args) of
           Inl what \<Rightarrow> fatal what w
         | Inr out_filename \<Rightarrow>
             if in_filename \<noteq> out_filename then
               (let out_entry = replace_filename in_entry out_filename
                in case report sys args in_entry out_entry w of
                     None \<Rightarrow> (Terminated, w)
                   | Some w' \<Rightarrow> (Returned, apply_rename sys args in_entry out_entry w'))
             else (Returned, w))"

text \<open>The loop (line 122): entries in order, until one of them ends the process.\<close>

fun rename_loop ::
  "('fs, 'rx) sys \<Rightarrow> arguments \<Rightarrow> 'rx \<Rightarrow> string list \<Rightarrow> 'fs world \<Rightarrow> ctl \<times> 'fs world" where
  "rename_loop sys args pat [] w = (Returned, w)"
| "rename_loop sys args pat (in_entry # entries) w =
     (case rename_entry sys args pat in_entry w of
        (Returned, w') \<Rightarrow> rename_loop sys args pat entries w'
      | stop \<Rightarrow> stop)"

text \<open>
  Lines 120-154: \<open>std::ranges::sort(entries)\<close> with the paths' own order, then the loop.
  \<open>std::ranges::sort\<close> leaves the order of equivalent elements open; \<open>sort_key\<close> keeps
  them as they were. Entries that one directory walk yields are pairwise inequivalent.
\<close>

definition sort_entries :: "string list \<Rightarrow> string list" where
  "sort_entries entries = sort_key path_key entries"

definition apply_phase ::
  "('fs, 'rx) sys \<Rightarrow> arguments \<Rightarrow> 'rx \<Rightarrow> string list \<Rightarrow> 'fs world \<Rightarrow> ctl \<times> 'fs world" where
  "apply_phase sys args pat entries w = rename_loop sys args pat (sort_entries entries) w"

text \<open>Lines 90-100: the base path.\<close>

definition resolve_path :: "('fs, 'rx) sys \<Rightarrow> arguments \<Rightarrow> string + string" where
  "resolve_path sys args = (case path args of Some p \<Rightarrow> Inr p | None \<Rightarrow> current_path sys)"

text \<open>Lines 108-118: the entries, all of them, before anything is renamed.\<close>

definition enumerate_entries :: "('fs, 'rx) sys \<Rightarrow> arguments \<Rightarrow> 'fs \<Rightarrow> string \<Rightarrow> string + string list" where
  "enumerate_entries sys args f base =
     iterator_to_files_transform sys f
       (if recursive args then recursive_directory_iterator sys f base
        else directory_iterator sys f base)"

definition rename :: "('fs, 'rx) sys \<Rightarrow> arguments \<Rightarrow> 'fs world \<Rightarrow> ctl \<times> 'fs world" where
  "rename sys args w =
     (case regex_assign sys (pattern args) of
        Inl what \<Rightarrow> fatal what w
      | Inr pat \<Rightarrow>
          (case resolve_path sys args of
             Inl what \<Rightarrow> fatal what w
           | Inr base \<Rightarrow>
               (let w' = w\<lparr>calls := calls w @ [Iterate (recursive args) base]\<rparr>
                in case enumerate_entries sys args (fs w) base of
                     Inl what \<Rightarrow> fatal what w'
                   | Inr entries \<Rightarrow> apply_phase sys args pat entries w')))"

text \<open>
  \<open>main\<close> (lines 158-164) after \<open>argp_parse\<close> has filled the arguments: the exit status of
  the process, \<open>None\<close> when it is killed by \<open>std::terminate\<close>.
\<close>

definition main :: "('fs, 'rx) sys \<Rightarrow> arguments \<Rightarrow> 'fs world \<Rightarrow> int option \<times> 'fs world" where
  "main sys args w =
     (case rename sys args w of
        (Returned, w') \<Rightarrow> (Some 0, w')
      | (Exit code, w') \<Rightarrow> (Some code, w')
      | (Terminated, w') \<Rightarrow> (None, w'))"

section \<open>The regular-expression library\<close>

text \<open>
  Modelled from the spec: \<open>std::regex\<close> and \<open>std::regex_replace\<close> belong to the C++
  standard library, whose code is not among the sources of the repository. The spec
  (section 4.2, steps 1 and 5b) asks of them that a malformed pattern is rejected, that
  every non-overlapping match is replaced by the template with \<open>$N\<close> standing for the
  N-th capture group, and that text outside matches is kept. The program is written for
  GNU/Linux (it parses its command line with \<open>argp\<close>), and the model below follows the
  library it is built with there, libstdc++, in the classic locale: the scanner and the
  parser of the default (ECMAScript) grammar, the depth-first executor, the match
  sequence of \<open>std::regex_iterator\<close> and the format rules of \<open>match_results::format\<close>.

  Where libstdc++ departs from ECMA-262 the model goes with libstdc++: the groups inside
  a quantified term keep what they captured from one repetition to the next, a
  repetition may match the empty string (twice at most at one position), a back
  reference to a group that has not matched fails, and a quantifier may follow another.
  Two things are simplified. The pattern is scanned to its end before it is parsed, so
  that of two errors in a pattern the one reported may be the other one. And the message
  of an exception is the name of its error code, not the sentence of the library.
\<close>

subsection \<open>Characters\<close>

text \<open>
  \<open>char\<close> is signed on the usual GNU/Linux platforms, and the ranges of a bracket
  expression compare characters as such.
\<close>

definition schar :: "char \<Rightarrow> int" where
  "schar c = (if of_char c < (128::nat) then int (of_char c) else int (of_char c) - 256)"

text \<open>The character classes of the classic locale.\<close>

definition is_digit :: "char \<Rightarrow> bool" where
  "is_digit c = (CHR ''0'' \<le> c \<and> c \<le> CHR ''9'')"

definition digit_value :: "char \<Rightarrow> nat" where
  "digit_value c = of_char c - of_char CHR ''0''"

definition is_upper :: "char \<Rightarrow> bool" where
  "is_upper c = (CHR ''A'' \<le> c \<and> c \<le> CHR ''Z'')"

definition is_lower :: "char \<Rightarrow> bool" where
  "is_lower c = (CHR ''a'' \<le> c \<and> c \<le> CHR ''z'')"

definition is_alpha :: "char \<Rightarrow> bool" where
  "is_alpha c = (is_lower c \<or> is_upper c)"

definition is_alnum :: "char \<Rightarrow> bool" where
  "is_alnum c = (is_alpha c \<or> is_digit c)"

definition is_word :: "char \<Rightarrow> bool" where
  "is_word c = (is_alnum c \<or> c = CHR ''_'')"

definition is_space :: "char \<Rightarrow> bool" where
  "is_space c = (c = CHR '' '' \<or> (char_of (9::nat) \<le> c \<and> c \<le> char_of (13::nat)))"

definition is_blank :: "char \<Rightarrow> bool" where
  "is_blank c = (c = CHR '' '' \<or> c = char_of (9::nat))"

definition is_cntrl :: "char \<Rightarrow> bool" where
  "is_cntrl c = (c < CHR '' '' \<or> c = char_of (127::nat))"

definition is_graph :: "char \<Rightarrow> bool" where
  "is_graph c = (CHR ''!'' \<le> c \<and> c \<le> CHR ''~'')"

definition is_print :: "char \<Rightarrow> bool" where
  "is_print c = (CHR '' '' \<le> c \<and> c \<le> CHR ''~'')"

definition is_punct :: "char \<Rightarrow> bool" where
  "is_punct c = (is_graph c \<and> \<not> is_alnum c)"

definition is_xdigit :: "char \<Rightarrow> bool" where
  "is_xdigit c =
     (is_digit c \<or> (CHR ''a'' \<le> c \<and> c \<le> CHR ''f'') \<or> (CHR ''A'' \<le> c \<and> c \<le> CHR ''F''))"

definition hex_value :: "char \<Rightarrow> nat" where
  "hex_value c =
     (if is_digit c then digit_value c
      else if is_lower c then of_char c - of_char CHR ''a'' + 10
      else of_char c - of_char CHR ''A'' + 10)"

definition to_lower :: "char \<Rightarrow> char" where
  "to_lower c = (if is_upper c then char_of (of_char c + (32::nat)) else c)"

definition line_terminator :: "char \<Rightarrow> bool" where
  "line_terminator c = (c = char_of (10::nat) \<or> c = char_of (13::nat))"

text \<open>
  The classes that \<open>regex_traits::lookup_classname\<close> knows, by their names in lower
  case, and \<open>regex_traits::isctype\<close>.
\<close>

datatype ctype_class =
    C_digit | C_word | C_space | C_alnum | C_alpha | C_blank | C_cntrl | C_graph | C_lower
  | C_print | C_punct | C_upper | C_xdigit

definition lookup_classname :: "string \<Rightarrow> ctype_class option" where
  "lookup_classname name =
     map_of
       [(''d'', C_digit), (''w'', C_word), (''s'', C_space), (''alnum'', C_alnum),
        (''alpha'', C_alpha), (''blank'', C_blank), (''cntrl'', C_cntrl), (''digit'', C_digit),
        (''graph'', C_graph), (''lower'', C_lower), (''print'', C_print), (''punct'', C_punct),
        (''space'', C_space), (''upper'', C_upper), (''xdigit'', C_xdigit)]
       (map to_lower name)"

fun isctype :: "ctype_class \<Rightarrow> char \<Rightarrow> bool" where
  "isctype C_digit c = is_digit c"
| "isctype C_word c = is_word c"
| "isctype C_space c = is_space c"
| "isctype C_alnum c = is_alnum c"
| "isctype C_alpha c = is_alpha c"
| "isctype C_blank c = is_blank c"
| "isctype C_cntrl c = is_cntrl c"
| "isctype C_graph c = is_graph c"
| "isctype C_lower c = is_lower c"
| "isctype C_print c = is_print c"
| "isctype C_punct c = is_punct c"
| "isctype C_upper c = is_upper c"
| "isctype C_xdigit c = is_xdigit c"

text \<open>
  \<open>regex_traits::lookup_collatename\<close>: the POSIX names of the 128 characters of the
  portable character set, each at the place of its character.
\<close>

definition collatenames :: "string list" where
  "collatenames =
     [''NUL'', ''SOH'', ''STX'', ''ETX'', ''EOT'', ''ENQ'', ''ACK'', ''alert'', ''backspace'',
      ''tab'', ''newline'', ''vertical-tab'', ''form-feed'', ''carriage-return'', ''SO'', ''SI'',
      ''DLE'', ''DC1'', ''DC2'', ''DC3'', ''DC4'', ''NAK'', ''SYN'', ''ETB'', ''CAN'', ''EM'',
      ''SUB'', ''ESC'', ''IS4'', ''IS3'', ''IS2'', ''IS1'', ''space'', ''exclamation-mark'',
      ''quotation-mark'', ''number-sign'', ''dollar-sign'', ''percent-sign'', ''ampersand'',
      ''apostrophe'', ''left-parenthesis'', ''right-parenthesis'', ''asterisk'', ''plus-sign'',
      ''comma'', ''hyphen'', ''period'', ''slash'', ''zero'', ''one'', ''two'', ''three'',
      ''four'', ''five'', ''six'', ''seven'', ''eight'', ''nine'', ''colon'', ''semicolon'',
      ''less-than-sign'', ''equals-sign'', ''greater-than-sign'', ''question-mark'',
      ''commercial-at'']
     @ map (\<lambda>c. [c]) ''ABCDEFGHIJKLMNOPQRSTUVWXYZ''
     @ [''left-square-bracket'', ''backslash'', ''right-square-bracket'', ''circumflex'',
        ''underscore'', ''grave-accent'']
     @ map (\<lambda>c. [c]) ''abcdefghijklmnopqrstuvwxyz''
     @ [''left-curly-bracket'', ''vertical-line'', ''right-curly-bracket'', ''tilde'', ''DEL'']"

fun index_of :: "'a \<Rightarrow> 'a list \<Rightarrow> nat \<Rightarrow> nat option" where
  "index_of x [] n = None"
| "index_of x (y # ys) n = (if x = y then Some n else index_of x ys (Suc n))"

definition lookup_collatename :: "string \<Rightarrow> char option" where
  "lookup_collatename name = map_option char_of (index_of name collatenames 0)"

subsection \<open>The scanner\<close>

text \<open>The error codes of \<open>std::regex_constants::error_type\<close>.\<close>

datatype error_type =
    error_collate | error_ctype | error_escape | error_backref | error_brack | error_paren
  | error_brace | error_badbrace | error_range | error_space | error_badrepeat
  | error_complexity | error_stack

text \<open>
  What a bracket expression matches: single characters, ranges, classes, negated classes
  (a character that is not in the class) and equivalence classes, which in the classic
  locale hold a letter in both cases.
\<close>

datatype class_item =
    Single char | Char_range char char | Class ctype_class | Not_class ctype_class | Equiv char

text \<open>The tokens inside a bracket expression, and the tokens of a pattern.\<close>

datatype bracket_token =
    B_char char | B_dash | B_class_name string | B_collsymbol string | B_equiv_name string
  | B_quoted_class char | B_other

datatype token =
    T_char char | T_any | T_closure0 | T_closure1 | T_opt | T_or | T_line_begin | T_line_end
  | T_word_bound bool | T_subexpr_begin | T_no_group_begin | T_lookahead_begin bool
  | T_subexpr_end | T_bracket bool "class_item list" | T_interval_begin | T_dup_count nat
  | T_comma | T_interval_end | T_quoted_class char | T_backref nat

fun decimal :: "string \<Rightarrow> nat \<Rightarrow> nat" where
  "decimal [] n = n"
| "decimal (c # cs) n = decimal cs (10 * n + digit_value c)"

fun hexadecimal :: "string \<Rightarrow> nat \<Rightarrow> nat" where
  "hexadecimal [] n = n"
| "hexadecimal (c # cs) n = hexadecimal cs (16 * n + hex_value c)"

text \<open>
  The escapes (\<open>_M_eat_escape_ecma\<close>). After the backslash come: a character of the
  escape table (\<open>\b\<close> is a backspace inside brackets only), a word boundary, a class,
  \<open>\cX\<close>, which stands for the character \<open>X\<close> as it is, two or four hexadecimal digits,
  of which the low byte is the character, a back reference made of all the digits that
  follow, or any other character, which stands for itself.
\<close>

datatype escape =
    E_char char | E_word_bound bool | E_quoted_class char | E_backref nat

definition find_escape :: "char \<Rightarrow> char option" where
  "find_escape c =
     map_of
       [(CHR ''0'', char_of (0::nat)), (CHR ''b'', char_of (8::nat)), (CHR ''f'', char_of (12::nat)),
        (CHR ''n'', char_of (10::nat)), (CHR ''r'', char_of (13::nat)), (CHR ''t'', char_of (9::nat)),
        (CHR ''v'', char_of (11::nat))] c"

definition eat_escape :: "bool \<Rightarrow> string \<Rightarrow> error_type + escape \<times> string" where
  "eat_escape in_bracket cs =
     (case cs of
        [] \<Rightarrow> Inl error_escape
      | c # ds \<Rightarrow>
          if find_escape c \<noteq> None \<and> (c \<noteq> CHR ''b'' \<or> in_bracket)
          then Inr (E_char (the (find_escape c)), ds)
          else if c = CHR ''b'' then Inr (E_word_bound False, ds)
          else if c = CHR ''B'' then Inr (E_word_bound True, ds)
          else if c \<in> set ''dDsSwW'' then Inr (E_quoted_class c, ds)
          else if c = CHR ''c'' then
            (case ds of [] \<Rightarrow> Inl error_escape | x # es \<Rightarrow> Inr (E_char x, es))
          else if c = CHR ''x'' \<or> c = CHR ''u'' then
            (let n = (if c = CHR ''x'' then 2 else 4)
             in if n \<le> length ds \<and> list_all is_xdigit (take n ds)
                then Inr (E_char (char_of (hexadecimal (take n ds) 0)), drop n ds)
                else Inl error_escape)
          else if is_digit c then
            Inr (E_backref (decimal (c # takeWhile is_digit ds) 0), dropWhile is_digit ds)
          else Inr (E_char c, ds))"

text \<open>
  \<open>_M_eat_class\<close>: the name up to the closing character, which \<open>]\<close> must follow.
\<close>

definition eat_class :: "char \<Rightarrow> string \<Rightarrow> (string \<times> string) option" where
  "eat_class ch cs =
     (case dropWhile (\<lambda>c. c \<noteq> ch) cs of
        a # b # rest \<Rightarrow> if b = CHR '']'' then Some (takeWhile (\<lambda>c. c \<noteq> ch) cs, rest) else None
      | _ \<Rightarrow> None)"

text \<open>
  The content of a bracket expression (\<open>_M_insert_bracket_matcher\<close> and
  \<open>_M_expression_term\<close>). The held single character is held back, as it may begin a
  range; a class cannot. A dash is a character at the beginning, at the end, and after
  a range.
\<close>

datatype bracket_state = No_char | Last_char char | Last_class

definition flush :: "bracket_state \<Rightarrow> class_item list \<Rightarrow> class_item list" where
  "flush held items = (case held of Last_char c \<Rightarrow> Single c # items | _ \<Rightarrow> items)"

definition add_character_class :: "string \<Rightarrow> bool \<Rightarrow> error_type + class_item" where
  "add_character_class name neg =
     (case lookup_classname name of
        None \<Rightarrow> Inl error_ctype
      | Some k \<Rightarrow> Inr (if neg then Not_class k else Class k))"

fun expression_terms ::
  "bracket_token list \<Rightarrow> bracket_state \<Rightarrow> class_item list \<Rightarrow> error_type + class_item list" where
  "expression_terms [] held items = Inr (rev (flush held items))"
| "expression_terms (B_collsymbol name # ts) held items =
     (case lookup_collatename name of
        None \<Rightarrow> Inl error_collate
      | Some c \<Rightarrow> expression_terms ts (Last_char c) (flush held (Single c # items)))"
| "expression_terms (B_equiv_name name # ts) held items =
     (case lookup_collatename name of
        None \<Rightarrow> Inl error_collate
      | Some c \<Rightarrow> expression_terms ts Last_class (Equiv (to_lower c) # flush held items))"
| "expression_terms (B_class_name name # ts) held items =
     (case add_character_class name False of
        Inl e \<Rightarrow> Inl e
      | Inr k \<Rightarrow> expression_terms ts Last_class (k # flush held items))"
| "expression_terms (B_char c # ts) held items = expression_terms ts (Last_char c) (flush held items)"
| "expression_terms (B_dash # ts) held items =
     (case ts of
        [] \<Rightarrow> Inr (rev (Single CHR ''-'' # flush held items))
      | t # us \<Rightarrow>
          (case held of
             Last_class \<Rightarrow> Inl error_range
           | Last_char l \<Rightarrow>
               (case t of
                  B_char r \<Rightarrow>
                    if schar r < schar l then Inl error_range
                    else expression_terms us No_char (Char_range l r # items)
                | B_dash \<Rightarrow>
                    if schar CHR ''-'' < schar l then Inl error_range
                    else expression_terms us No_char (Char_range l CHR ''-'' # items)
                | _ \<Rightarrow> Inl error_range)
           | No_char \<Rightarrow> expression_terms ts (Last_char CHR ''-'') items))"
| "expression_terms (B_quoted_class c # ts) held items =
     (case add_character_class [c] (is_upper c) of
        Inl e \<Rightarrow> Inl e
      | Inr k \<Rightarrow> expression_terms ts Last_class (k # flush held items))"
| "expression_terms (B_other # ts) held items = Inl error_brack"

definition bracket_matcher :: "bracket_token list \<Rightarrow> error_type + class_item list" where
  "bracket_matcher ts =
     (case ts of
        B_char c # us \<Rightarrow> expression_terms us (Last_char c) []
      | B_dash # us \<Rightarrow> expression_terms us (Last_char CHR ''-'') []
      | _ \<Rightarrow> expression_terms ts No_char [])"

text \<open>
  The scanner (\<open>_M_scan_normal\<close>, \<open>_M_scan_in_bracket\<close>, \<open>_M_scan_in_brace\<close>) reads the
  pattern in one of three states. The tokens of a bracket expression are gathered and
  handed to \<open>bracket_matcher\<close> at the closing bracket. \<open>CHR 0x5C\<close> is the backslash.
\<close>

datatype scan_state = Normal | In_bracket bool "bracket_token list" | In_brace

definition emit :: "'a \<Rightarrow> error_type + 'a list \<Rightarrow> error_type + 'a list" where
  "emit t r = (case r of Inl e \<Rightarrow> Inl e | Inr ts \<Rightarrow> Inr (t # ts))"

definition escape_token :: "escape \<Rightarrow> token" where
  "escape_token e =
     (case e of
        E_char c \<Rightarrow> T_char c
      | E_word_bound neg \<Rightarrow> T_word_bound neg
      | E_quoted_class c \<Rightarrow> T_quoted_class c
      | E_backref n \<Rightarrow> T_backref n)"

definition escape_bracket_token :: "escape \<Rightarrow> bracket_token" where
  "escape_bracket_token e =
     (case e of
        E_char c \<Rightarrow> B_char c
      | E_quoted_class c \<Rightarrow> B_quoted_class c
      | _ \<Rightarrow> B_other)"

lemma dropWhile_shorter: "length (dropWhile P xs) < Suc (length xs)"
  by (simp add: less_Suc_eq_le length_dropWhile_le)

lemma dropWhile_shorter2: "length (dropWhile P xs) \<le> Suc (length xs)"
  by (rule le_SucI[OF length_dropWhile_le])

lemma eat_escape_shorter: "eat_escape b cs = Inr (e, rest) \<Longrightarrow> length rest < length cs"
  by (auto simp: eat_escape_def Let_def less_Suc_eq_le dropWhile_shorter2 length_dropWhile_le
      split: list.splits if_splits)

lemma eat_class_shorter: "eat_class ch cs = Some (name, rest) \<Longrightarrow> length rest < length cs"
proof -
  assume a: "eat_class ch cs = Some (name, rest)"
  then obtain x y where "dropWhile (\<lambda>c. c \<noteq> ch) cs = x # y # rest"
    by (auto simp: eat_class_def split: list.splits if_splits)
  then have "length (dropWhile (\<lambda>c. c \<noteq> ch) cs) = Suc (Suc (length rest))"
    by simp
  with length_dropWhile_le[of "\<lambda>c. c \<noteq> ch" cs] show ?thesis
    by simp
qed

function scan :: "scan_state \<Rightarrow> string \<Rightarrow> error_type + token list" where
  "scan Normal [] = Inr []"
| "scan (In_bracket neg bts) [] = Inl error_brack"
| "scan In_brace [] = Inl error_brace"
| "scan Normal (c # cs) =
     (if c = CHR 0x5C then
        (case eat_escape False cs of
           Inl e \<Rightarrow> Inl e
         | Inr (esc, rest) \<Rightarrow> emit (escape_token esc) (scan Normal rest))
      else if c = CHR ''('' then
        (case cs of
           [] \<Rightarrow> Inr [T_subexpr_begin]
         | d # ds \<Rightarrow>
             if d = CHR ''?'' then
               (case ds of
                  [] \<Rightarrow> Inl error_paren
                | e # es \<Rightarrow>
                    if e = CHR '':'' then emit T_no_group_begin (scan Normal es)
                    else if e = CHR ''='' then emit (T_lookahead_begin False) (scan Normal es)
                    else if e = CHR ''!'' then emit (T_lookahead_begin True) (scan Normal es)
                    else Inl error_paren)
             else emit T_subexpr_begin (scan Normal cs))
      else if c = CHR '')'' then emit T_subexpr_end (scan Normal cs)
      else if c = CHR ''['' then
        (case cs of
           [] \<Rightarrow> Inl error_brack
         | d # ds \<Rightarrow>
             if d = CHR ''^'' then scan (In_bracket True []) ds else scan (In_bracket False []) cs)
      else if c = CHR ''{'' then emit T_interval_begin (scan In_brace cs)
      else if c = CHR ''*'' then emit T_closure0 (scan Normal cs)
      else if c = CHR ''+'' then emit T_closure1 (scan Normal cs)
      else if c = CHR ''?'' then emit T_opt (scan Normal cs)
      else if c = CHR ''|'' then emit T_or (scan Normal cs)
      else if c = CHR ''^'' then emit T_line_begin (scan Normal cs)
      else if c = CHR ''$'' then emit T_line_end (scan Normal cs)
      else if c = CHR ''.'' then emit T_any (scan Normal cs)
      else emit (T_char c) (scan Normal cs))"
| "scan (In_bracket neg bts) (c # cs) =
     (if c = CHR ''-'' then scan (In_bracket neg (B_dash # bts)) cs
      else if c = CHR ''['' then
        (case cs of
           [] \<Rightarrow> Inl error_brack
         | d # ds \<Rightarrow>
             if d = CHR ''.'' \<or> d = CHR '':'' \<or> d = CHR ''='' then
               (case eat_class d ds of
                  None \<Rightarrow> Inl (if d = CHR '':'' then error_ctype else error_collate)
                | Some (name, rest) \<Rightarrow>
                    scan (In_bracket neg
                            ((if d = CHR ''.'' then B_collsymbol name
                              else if d = CHR '':'' then B_class_name name
                              else B_equiv_name name) # bts)) rest)
             else scan (In_bracket neg (B_char c # bts)) cs)
      else if c = CHR '']'' then
        (case bracket_matcher (rev bts) of
           Inl e \<Rightarrow> Inl e
         | Inr items \<Rightarrow> emit (T_bracket neg items) (scan Normal cs))
      else if c = CHR 0x5C then
        (case eat_escape True cs of
           Inl e \<Rightarrow> Inl e
         | Inr (esc, rest) \<Rightarrow> scan (In_bracket neg (escape_bracket_token esc # bts)) rest)
      else scan (In_bracket neg (B_char c # bts)) cs)"
| "scan In_brace (c # cs) =
     (if is_digit c then
        emit (T_dup_count (decimal (c # takeWhile is_digit cs) 0))
          (scan In_brace (dropWhile is_digit cs))
      else if c = CHR '','' then emit T_comma (scan In_brace cs)
      else if c = CHR ''}'' then emit T_interval_end (scan Normal cs)
      else Inl error_badbrace)"
  by pat_completeness auto
termination
  by (relation "measure (\<lambda>(st, cs). length cs)")
    (auto dest: eat_escape_shorter eat_class_shorter simp: less_Suc_eq_le length_dropWhile_le)

subsection \<open>The parser\<close>

text \<open>
  The pattern as the parser reads it (\<open>_M_disjunction\<close>, \<open>_M_alternative\<close>, \<open>_M_term\<close>):
  alternatives of sequences of terms; a term is an assertion, or an atom with any number
  of quantifiers after it. The flag of a quantifier says that it is not greedy.
\<close>

datatype tree =
    Empty
  | Char char
  | Any
  | Set bool "class_item list"
  | Backreference nat
  | Line_begin
  | Line_end
  | Word_bound bool
  | Subexpr nat tree
  | No_group tree
  | Lookahead_group bool tree
  | Then tree tree
  | Or tree tree
  | Closure0 bool tree
  | Closure1 bool tree
  | Optional bool tree
  | Interval nat "nat option" bool tree

text \<open>
  The parser keeps one frame per open group: what the group is, the alternatives that
  are complete and the terms of the one being read, the latest first. Capture groups are
  numbered by their opening parenthesis.
\<close>

datatype frame_kind = Whole | Capture nat | No_capture | Look bool

record frame =
  frame_kind :: frame_kind
  frame_alternatives :: "tree list"
  frame_terms :: "tree list"

fun mk_then :: "tree list \<Rightarrow> tree" where
  "mk_then [] = Empty"
| "mk_then (r # rs) = Then r (mk_then rs)"

fun mk_or :: "tree list \<Rightarrow> tree" where
  "mk_or [] = Empty"
| "mk_or [r] = r"
| "mk_or (r # rs) = Or r (mk_or rs)"

definition close_frame :: "frame \<Rightarrow> tree" where
  "close_frame f =
     (let d = mk_or (rev (mk_then (rev (frame_terms f)) # frame_alternatives f))
      in case frame_kind f of
           Whole \<Rightarrow> d
         | Capture n \<Rightarrow> Subexpr n d
         | No_capture \<Rightarrow> No_group d
         | Look neg \<Rightarrow> Lookahead_group neg d)"

definition add_term :: "tree \<Rightarrow> frame \<Rightarrow> frame" where
  "add_term r f = f\<lparr>frame_terms := r # frame_terms f\<rparr>"

definition open_frame :: "frame_kind \<Rightarrow> frame" where
  "open_frame k = \<lparr>frame_kind = k, frame_alternatives = [], frame_terms = []\<rparr>"

definition quantify :: "(tree \<Rightarrow> tree) \<Rightarrow> frame \<Rightarrow> frame" where
  "quantify q f =
     (case frame_terms f of [] \<Rightarrow> f | r # rs \<Rightarrow> f\<lparr>frame_terms := q r # rs\<rparr>)"

text \<open>The groups that are open, for a back reference may not name one of them.\<close>

fun open_groups :: "frame list \<Rightarrow> nat list" where
  "open_groups [] = []"
| "open_groups (f # hs) =
     (case frame_kind f of Capture n \<Rightarrow> n # open_groups hs | _ \<Rightarrow> open_groups hs)"

text \<open>\<open>_M_match_token\<close>: the next token is taken if it is the one asked for.\<close>

definition match_token :: "token \<Rightarrow> token list \<Rightarrow> token list option" where
  "match_token t ts = (case ts of [] \<Rightarrow> None | u # us \<Rightarrow> if u = t then Some us else None)"

definition match_dup_count :: "token list \<Rightarrow> (nat \<times> token list) option" where
  "match_dup_count ts = (case ts of T_dup_count n # us \<Rightarrow> Some (n, us) | _ \<Rightarrow> None)"

text \<open>A \<open>?\<close> after a quantifier makes it not greedy.\<close>

definition lazy_mark :: "token list \<Rightarrow> bool \<times> token list" where
  "lazy_mark ts = (case match_token T_opt ts of None \<Rightarrow> (False, ts) | Some us \<Rightarrow> (True, us))"

text \<open>
  The counts between braces, after the opening one: the minimum, and how many more
  repetitions are allowed (\<open>None\<close> for any number).
\<close>

definition interval_end :: "nat \<Rightarrow> nat option \<Rightarrow> token list \<Rightarrow> error_type + nat \<times> nat option \<times> token list" where
  "interval_end n extra ts =
     (case match_token T_interval_end ts of
        None \<Rightarrow> Inl error_brace
      | Some us \<Rightarrow> Inr (n, extra, us))"

definition interval_of :: "token list \<Rightarrow> error_type + nat \<times> nat option \<times> token list" where
  "interval_of ts =
     (case match_dup_count ts of
        None \<Rightarrow> Inl error_badbrace
      | Some (n, us) \<Rightarrow>
          (case match_token T_comma us of
             None \<Rightarrow> interval_end n (Some 0) us
           | Some vs \<Rightarrow>
               (case match_dup_count vs of
                  None \<Rightarrow> interval_end n None vs
                | Some (m, ws) \<Rightarrow>
                    (case interval_end n (Some (m - n)) ws of
                       Inl e \<Rightarrow> Inl e
                     | Inr found \<Rightarrow> if m < n then Inl error_badbrace else Inr found))))"

lemma match_token_shorter: "match_token t ts = Some us \<Longrightarrow> length us < length ts"
  by (auto simp: match_token_def split: list.splits if_splits)

lemma match_dup_count_shorter: "match_dup_count ts = Some (n, us) \<Longrightarrow> length us < length ts"
  by (cases ts; cases "hd ts") (auto simp: match_dup_count_def)

lemma interval_end_shorter: "interval_end n extra ts = Inr (n', extra', us) \<Longrightarrow> length us < length ts"
  by (auto simp: interval_end_def dest: match_token_shorter split: option.splits)

lemma lazy_mark_shorter: "lazy_mark ts = (neg, us) \<Longrightarrow> length us \<le> length ts"
  by (auto simp: lazy_mark_def dest: match_token_shorter split: option.splits)

lemma interval_of_shorter: "interval_of ts = Inr (n, extra, us) \<Longrightarrow> length us < length ts"
  unfolding interval_of_def
  by (auto dest!: match_token_shorter match_dup_count_shorter interval_end_shorter
      split: option.splits sum.splits if_splits)

text \<open>
  \<open>quantifiable\<close> says that the last term is an atom, with or without quantifiers: only
  then may a quantifier follow. Where a term is expected and none can begin, the parser
  stops, and since the pattern is not at its end the error is \<open>error_paren\<close>. \<open>marks\<close> is
  the number of capture groups opened so far.
\<close>

function parse ::
  "token list \<Rightarrow> bool \<Rightarrow> nat \<Rightarrow> frame \<Rightarrow> frame list \<Rightarrow> error_type + tree \<times> nat" where
  "parse [] quantifiable marks f gs =
     (if gs = [] then Inr (close_frame f, marks) else Inl error_paren)"
| "parse (t # ts) quantifiable marks f gs =
     (case t of
        T_char c \<Rightarrow> parse ts True marks (add_term (Char c) f) gs
      | T_any \<Rightarrow> parse ts True marks (add_term Any f) gs
      | T_bracket neg items \<Rightarrow> parse ts True marks (add_term (Set neg items) f) gs
      | T_quoted_class c \<Rightarrow>
          (case lookup_classname [c] of
             None \<Rightarrow> Inl error_ctype
           | Some k \<Rightarrow> parse ts True marks (add_term (Set (is_upper c) [Class k]) f) gs)
      | T_backref n \<Rightarrow>
          if marks < n \<or> n \<in> set (open_groups (f # gs)) then Inl error_backref
          else parse ts True marks (add_term (Backreference n) f) gs
      | T_line_begin \<Rightarrow> parse ts False marks (add_term Line_begin f) gs
      | T_line_end \<Rightarrow> parse ts False marks (add_term Line_end f) gs
      | T_word_bound neg \<Rightarrow> parse ts False marks (add_term (Word_bound neg) f) gs
      | T_subexpr_begin \<Rightarrow>
          parse ts False (Suc marks) (open_frame (Capture (Suc marks))) (f # gs)
      | T_no_group_begin \<Rightarrow> parse ts False marks (open_frame No_capture) (f # gs)
      | T_lookahead_begin neg \<Rightarrow> parse ts False marks (open_frame (Look neg)) (f # gs)
      | T_subexpr_end \<Rightarrow>
          (case gs of
             [] \<Rightarrow> Inl error_paren
           | g # hs \<Rightarrow>
               parse ts (case frame_kind f of Look neg \<Rightarrow> False | _ \<Rightarrow> True) marks
                 (add_term (close_frame f) g) hs)
      | T_or \<Rightarrow>
          parse ts False marks
            (f\<lparr>frame_alternatives := mk_then (rev (frame_terms f)) # frame_alternatives f,
               frame_terms := []\<rparr>) gs
      | T_closure0 \<Rightarrow>
          if \<not> quantifiable then Inl error_paren
          else (case lazy_mark ts of
                  (neg, us) \<Rightarrow> parse us True marks (quantify (Closure0 neg) f) gs)
      | T_closure1 \<Rightarrow>
          if \<not> quantifiable then Inl error_paren
          else (case lazy_mark ts of
                  (neg, us) \<Rightarrow> parse us True marks (quantify (Closure1 neg) f) gs)
      | T_opt \<Rightarrow>
          if \<not> quantifiable then Inl error_paren
          else (case lazy_mark ts of
                  (neg, us) \<Rightarrow> parse us True marks (quantify (Optional neg) f) gs)
      | T_interval_begin \<Rightarrow>
          if \<not> quantifiable then Inl error_paren
          else (case interval_of ts of
                  Inl e \<Rightarrow> Inl e
                | Inr (n, extra, us) \<Rightarrow>
                    (case lazy_mark us of
                       (neg, vs) \<Rightarrow> parse vs True marks (quantify (Interval n extra neg) f) gs))
      | T_dup_count n \<Rightarrow> Inl error_brace
      | T_comma \<Rightarrow> Inl error_brace
      | T_interval_end \<Rightarrow> Inl error_brace)"
  by pat_completeness auto
termination
  by (relation "measure (\<lambda>(ts, q, k, f, gs). length ts)")
    (auto dest!: lazy_mark_shorter[OF sym] interval_of_shorter)

text \<open>
  The states of the automaton that the parser builds, of which there may be no extra
  than \<open>_GLIBCXX_REGEX_STATE_LIMIT\<close>: \<open>inserted\<close> counts the states that reading a term
  adds, \<open>reachable\<close> those that a copy of it is made of. A repetition between braces is
  built of copies of the term, and the term itself is left aside.
\<close>

fun reachable :: "tree \<Rightarrow> int" where
  "reachable (Subexpr n r) = reachable r + 2"
| "reachable (No_group r) = reachable r + 1"
| "reachable (Lookahead_group neg r) = reachable r + 2"
| "reachable (Then a b) = reachable a + reachable b"
| "reachable (Or a b) = reachable a + reachable b + 2"
| "reachable (Closure0 neg r) = reachable r + 1"
| "reachable (Closure1 neg r) = reachable r + 1"
| "reachable (Optional neg r) = reachable r + 2"
| "reachable (Interval n extra neg r) =
     1 + int n * reachable r
       + (case extra of None \<Rightarrow> reachable r + 1 | Some d \<Rightarrow> 1 + int d * (reachable r + 1))"
| "reachable r = 1"

fun inserted :: "tree \<Rightarrow> int" where
  "inserted (Subexpr n r) = inserted r + 2"
| "inserted (No_group r) = inserted r + 1"
| "inserted (Lookahead_group neg r) = inserted r + 2"
| "inserted (Then a b) = inserted a + inserted b"
| "inserted (Or a b) = inserted a + inserted b + 2"
| "inserted (Closure0 neg r) = inserted r + 1"
| "inserted (Closure1 neg r) = inserted r + 1"
| "inserted (Optional neg r) = inserted r + 2"
| "inserted (Interval n extra neg r) =
     inserted r + 1 + int n * reachable r
       + (case extra of None \<Rightarrow> reachable r + 1 | Some d \<Rightarrow> 1 + int d * (reachable r + 1))"
| "inserted r = 1"

definition state_limit :: int where
  "state_limit = 100000"

subsection \<open>The automaton\<close>

text \<open>
  What the executor runs. A quantifier is a repeat state with a number of its own: in a
  \<open>Loop\<close> the way on leads through the term and back to the state, in an \<open>Opt\<close> through
  the term and ahead. \<open>r+\<close> is \<open>r\<close> followed by the loop of \<open>r\<close>, the same states twice;
  a repetition between braces is made of copies of the term, each with repeat states
  of its own: the required ones in a row, then a loop for \<open>{n,}\<close> or, for \<open>{n,m}\<close>, the
  optional ones one inside the other.
\<close>

datatype regex =
    Epsilon
  | Chr char
  | Any_char
  | Bracket bool "class_item list"
  | Seq regex regex
  | Alt regex regex
  | Group nat regex
  | Bol
  | Eol
  | Word_boundary bool
  | Lookahead bool regex
  | Backref nat
  | Loop nat bool regex
  | Opt nat bool regex

fun copies :: "(nat \<Rightarrow> regex \<times> nat) \<Rightarrow> nat \<Rightarrow> nat \<Rightarrow> regex list \<times> nat" where
  "copies f 0 k = ([], k)"
| "copies f (Suc n) k =
     (case f k of (c, k1) \<Rightarrow> (case copies f n k1 of (cs, k2) \<Rightarrow> (c # cs, k2)))"

fun optional_copies :: "(nat \<Rightarrow> regex \<times> nat) \<Rightarrow> bool \<Rightarrow> nat \<Rightarrow> nat \<Rightarrow> regex \<times> nat" where
  "optional_copies f neg 0 k = (Epsilon, k)"
| "optional_copies f neg (Suc d) k =
     (case f k of
        (c, k1) \<Rightarrow>
          (case optional_copies f neg d k1 of (rest, k2) \<Rightarrow> (Opt k2 neg (Seq c rest), Suc k2)))"

fun assemble :: "tree \<Rightarrow> nat \<Rightarrow> regex \<times> nat" where
  "assemble Empty k = (Epsilon, k)"
| "assemble (Char c) k = (Chr c, k)"
| "assemble Any k = (Any_char, k)"
| "assemble (Set neg items) k = (Bracket neg items, k)"
| "assemble (Backreference n) k = (Backref n, k)"
| "assemble Line_begin k = (Bol, k)"
| "assemble Line_end k = (Eol, k)"
| "assemble (Word_bound neg) k = (Word_boundary neg, k)"
| "assemble (Subexpr n t) k = (case assemble t k of (r, k1) \<Rightarrow> (Group n r, k1))"
| "assemble (No_group t) k = assemble t k"
| "assemble (Lookahead_group neg t) k = (case assemble t k of (r, k1) \<Rightarrow> (Lookahead neg r, k1))"
| "assemble (Then a b) k =
     (case assemble a k of (x, k1) \<Rightarrow> (case assemble b k1 of (y, k2) \<Rightarrow> (Seq x y, k2)))"
| "assemble (Or a b) k =
     (case assemble a k of (x, k1) \<Rightarrow> (case assemble b k1 of (y, k2) \<Rightarrow> (Alt x y, k2)))"
| "assemble (Closure0 neg t) k = (case assemble t k of (r, k1) \<Rightarrow> (Loop k1 neg r, Suc k1))"
| "assemble (Closure1 neg t) k =
     (case assemble t k of (r, k1) \<Rightarrow> (Seq r (Loop k1 neg r), Suc k1))"
| "assemble (Optional neg t) k = (case assemble t k of (r, k1) \<Rightarrow> (Opt k1 neg r, Suc k1))"
| "assemble (Interval n extra neg t) k =
     (case copies (\<lambda>j. assemble t j) n k of
        (cs, k1) \<Rightarrow>
          (case extra of
             None \<Rightarrow>
               (case assemble t k1 of (r, k2) \<Rightarrow> (foldr Seq cs (Loop k2 neg r), Suc k2))
           | Some d \<Rightarrow>
               (case optional_copies (\<lambda>j. assemble t j) neg d k1 of
                  (rest, k2) \<Rightarrow> (foldr Seq cs rest, k2))))"

text \<open>
  The compiled pattern (\<open>std::regex\<close>): the automaton and the number of its capture
  groups. The whole pattern is group 0.
\<close>

record basic_regex =
  automaton :: regex
  mark_count :: nat

definition compile :: "string \<Rightarrow> error_type + basic_regex" where
  "compile p =
     (case scan Normal p of
        Inl e \<Rightarrow> Inl e
      | Inr ts \<Rightarrow>
          (case parse ts False 0 (open_frame Whole) [] of
             Inl e \<Rightarrow> Inl e
           | Inr (t, marks) \<Rightarrow>
               if state_limit < inserted t + 3 then Inl error_space
               else Inr \<lparr>automaton = Group 0 (fst (assemble t 0)), mark_count = marks\<rparr>))"

subsection \<open>The executor\<close>

text \<open>
  The capture groups of a match in progress (\<open>_M_cur_results\<close>): for each group, where
  its latest match begins and ends, if it has matched.
\<close>

type_synonym captures = "(nat \<times> nat) option list"

text \<open>
  One search of the executor: the subject, the position where the search begins
  (\<open>_M_begin\<close>) and the flags \<open>match_prev_avail\<close> and \<open>match_not_null\<close>.
\<close>

record search =
  subject :: string
  search_begin :: nat
  prev_avail :: bool
  not_null :: bool

fun class_item_matches :: "class_item \<Rightarrow> char \<Rightarrow> bool" where
  "class_item_matches (Single x) c = (c = x)"
| "class_item_matches (Char_range a b) c = (schar a \<le> schar c \<and> schar c \<le> schar b)"
| "class_item_matches (Class k) c = isctype k c"
| "class_item_matches (Not_class k) c = (\<not> isctype k c)"
| "class_item_matches (Equiv x) c = (to_lower c = x)"

definition bracket_matches :: "bool \<Rightarrow> class_item list \<Rightarrow> char \<Rightarrow> bool" where
  "bracket_matches neg items c = (neg \<noteq> list_ex (\<lambda>k. class_item_matches k c) items)"

text \<open>
  \<open>_M_word_boundary\<close>: the character before the position is looked at unless the
  position is where the search began and nothing is known to come before it.
\<close>

definition word_boundary :: "search \<Rightarrow> nat \<Rightarrow> bool" where
  "word_boundary ctx p =
     (let s = subject ctx;
          left_is_word = ((p \<noteq> search_begin ctx \<or> prev_avail ctx) \<and> 0 < p \<and> is_word (s ! (p - 1)));
          right_is_word = (p < length s \<and> is_word (s ! p))
      in left_is_word \<noteq> right_is_word)"

definition at_begin :: "search \<Rightarrow> nat \<Rightarrow> bool" where
  "at_begin ctx p = (p = search_begin ctx \<and> \<not> prev_avail ctx)"

text \<open>What a look-ahead that succeeds leaves in the groups: those it matched.\<close>

definition merge_results :: "captures \<Rightarrow> captures \<Rightarrow> captures" where
  "merge_results c d = map (\<lambda>(old, new). if new = None then old else new) (zip c d)"

text \<open>
  The repeat counts (\<open>_M_rep_count\<close>): for each repeat state, the position at which it
  was last entered and how many times in a row it has been entered there. A repeat
  state is entered at most twice running at one position.
\<close>

type_synonym rep_count = "nat \<Rightarrow> nat \<times> nat"

definition rep_once_more :: "rep_count \<Rightarrow> nat \<Rightarrow> nat \<Rightarrow> rep_count option" where
  "rep_once_more rep i p =
     (case rep i of
        (pos, n) \<Rightarrow>
          if n = 0 \<or> pos \<noteq> p then Some (rep(i := (p, 1)))
          else if n < 2 then Some (rep(i := (pos, Suc n)))
          else None)"

text \<open>
  What is left to do on the way to the accepting state: terms to match and groups to
  close, the group with the position where it was opened.
\<close>

datatype item = Match regex | Close nat nat

text \<open>The measure of a search in progress, for it ends.\<close>

fun look_depth :: "regex \<Rightarrow> nat" where
  "look_depth (Seq a b) = max (look_depth a) (look_depth b)"
| "look_depth (Alt a b) = max (look_depth a) (look_depth b)"
| "look_depth (Group n r) = look_depth r"
| "look_depth (Lookahead neg r) = Suc (look_depth r)"
| "look_depth (Loop i neg r) = look_depth r"
| "look_depth (Opt i neg r) = look_depth r"
| "look_depth r = 0"

fun weight :: "regex \<Rightarrow> nat" where
  "weight (Seq a b) = Suc (weight a + weight b)"
| "weight (Alt a b) = Suc (weight a + weight b)"
| "weight (Group n r) = Suc (Suc (weight r))"
| "weight (Lookahead neg r) = Suc (weight r)"
| "weight (Loop i neg r) = Suc (weight r)"
| "weight (Opt i neg r) = Suc (weight r)"
| "weight r = 1"

fun repeat_states :: "regex \<Rightarrow> nat set" where
  "repeat_states (Seq a b) = repeat_states a \<union> repeat_states b"
| "repeat_states (Alt a b) = repeat_states a \<union> repeat_states b"
| "repeat_states (Group n r) = repeat_states r"
| "repeat_states (Lookahead neg r) = repeat_states r"
| "repeat_states (Loop i neg r) = insert i (repeat_states r)"
| "repeat_states (Opt i neg r) = insert i (repeat_states r)"
| "repeat_states r = {}"

fun item_depth :: "item \<Rightarrow> nat" where
  "item_depth (Match r) = look_depth r"
| "item_depth (Close n st) = 0"

fun item_weight :: "item \<Rightarrow> nat" where
  "item_weight (Match r) = weight r"
| "item_weight (Close n st) = 1"

fun item_states :: "item \<Rightarrow> nat set" where
  "item_states (Match r) = repeat_states r"
| "item_states (Close n st) = {}"

fun stack_depth :: "item list \<Rightarrow> nat" where
  "stack_depth [] = 0"
| "stack_depth (x # k) = max (item_depth x) (stack_depth k)"

fun stack_weight :: "item list \<Rightarrow> nat" where
  "stack_weight [] = 0"
| "stack_weight (x # k) = item_weight x + stack_weight k"

fun stack_states :: "item list \<Rightarrow> nat set" where
  "stack_states [] = {}"
| "stack_states (x # k) = item_states x \<union> stack_states k"

definition entries_left :: "rep_count \<Rightarrow> nat \<Rightarrow> nat \<Rightarrow> nat" where
  "entries_left rep p i = (case rep i of (pos, n) \<Rightarrow> if pos = p then 2 - n else 2)"

definition rank :: "search \<times> item list \<times> nat \<times> captures \<times> rep_count \<Rightarrow> nat \<times> nat \<times> nat \<times> nat" where
  "rank = (\<lambda>(ctx, k, p, c, rep).
     (stack_depth k, length (subject ctx) - p, sum (entries_left rep p) (stack_states k),
      stack_weight k))"

lemma finite_repeat_states [simp]: "finite (repeat_states r)"
  by (induction r) auto

lemma finite_stack_states [simp]: "finite (stack_states k)"
proof (induction k)
  case (Cons x k)
  then show ?case by (cases x) auto
qed simp

lemma weight_positive [simp]: "0 < weight r"
  by (induction r) auto

lemma entries_left_once_more:
  assumes "rep_once_more rep i p = Some rep1"
  shows "entries_left rep1 p j \<le> entries_left rep p j"
    and "entries_left rep1 p i < entries_left rep p i"
  using assms by (auto simp: rep_once_more_def entries_left_def split: prod.splits if_splits)

lemma sum_entries_le:
  assumes "finite A" and "B \<subseteq> A" and "\<And>j. f' j \<le> (f j :: nat)"
  shows "sum f' B \<le> sum f A"
proof -
  have "sum f' B \<le> sum f B"
    by (rule sum_mono) (rule assms(3))
  also have "\<dots> \<le> sum f A"
    using assms(1,2) by (intro sum_mono2) auto
  finally show ?thesis .
qed

lemma sum_entries_less:
  assumes "finite A" and "i \<in> A" and "\<And>j. f' j \<le> (f j :: nat)" and "f' i < f i"
  shows "sum f' A < sum f A"
  using assms by (intro sum_strict_mono_ex1) auto

lemma lex4I:
  "d' \<le> d \<Longrightarrow> (d' = d \<Longrightarrow> l' \<le> l) \<Longrightarrow> (d' = d \<Longrightarrow> l' = l \<Longrightarrow> f' \<le> f)
   \<Longrightarrow> (d' = d \<Longrightarrow> l' = l \<Longrightarrow> f' = f \<Longrightarrow> w' < w)
   \<Longrightarrow> ((d', l', f', w'), (d, l, f, w))
         \<in> less_than <*lex*> less_than <*lex*> less_than <*lex*> (less_than :: (nat \<times> nat) set)"
  by auto

lemma rank_step:
  assumes "stack_depth k' \<le> stack_depth k" and "stack_states k' \<subseteq> stack_states k"
    and "subject ctx' = subject ctx" and "p \<le> p'"
    and "p < p' \<Longrightarrow> p' \<le> length (subject ctx)"
    and "p' = p \<Longrightarrow> stack_weight k' < stack_weight k"
    and "\<And>j. p' = p \<Longrightarrow> entries_left rep' p j \<le> entries_left rep p j"
  shows "((ctx', k', p', c', rep'), (ctx, k, p, c, rep))
       \<in> inv_image (less_than <*lex*> less_than <*lex*> less_than <*lex*> less_than) rank"
proof -
  have "p' = p" if "length (subject ctx) - p' = length (subject ctx) - p"
    using that assms(4,5) by (cases "p < p'") auto
  then show ?thesis
    unfolding in_inv_image rank_def prod.case assms(3)
    using assms(1,2,4,6,7) by (intro lex4I sum_entries_le) auto
qed

lemma rank_loop:
  assumes "rep_once_more rep i p = Some rep1"
  shows "((ctx, Match r # Match (Loop i neg r) # k, p, c1, rep1), (ctx, Match (Loop i neg r) # k, p, c, rep))
       \<in> inv_image (less_than <*lex*> less_than <*lex*> less_than <*lex*> less_than) rank"
proof -
  have "sum (entries_left rep1 p) (insert i (repeat_states r \<union> stack_states k))
      < sum (entries_left rep p) (insert i (repeat_states r \<union> stack_states k))"
    using entries_left_once_more[OF assms] by (intro sum_entries_less[of _ i]) auto
  moreover have "repeat_states r \<union> (insert i (repeat_states r) \<union> stack_states k)
      = insert i (repeat_states r \<union> stack_states k)"
    by auto
  ultimately show ?thesis
    unfolding in_inv_image rank_def prod.case
    by (intro lex4I) (auto simp: Un_commute insert_commute)
qed

lemma rank_look:
  "((ctx\<lparr>search_begin := b\<rparr>, [Match r], p, c, rep0), (ctx, Match (Lookahead neg r) # k, p, c, rep))
     \<in> inv_image (less_than <*lex*> less_than <*lex*> less_than <*lex*> less_than) rank"
  unfolding in_inv_image rank_def prod.case by auto

text \<open>
  The depth-first search (\<open>_M_dfs\<close>) from a position \<open>p\<close>, with the groups \<open>c\<close> and the
  repeat counts \<open>rep\<close>. It returns the solution it reaches first, if any: where the
  match ends and its groups. The repeat counts are put back when the search comes back
  from a branch, and so are the groups that the branch closed; what a look-ahead copied
  into the groups stays, which is why the groups are returned as the search leaves
  them. At the accepting state an empty match is refused under \<open>match_not_null\<close>.
  A look-ahead is a search of its own that begins where it stands, with the flags of
  the search around it and repeat counts of its own.
\<close>

function run ::
  "search \<Rightarrow> item list \<Rightarrow> nat \<Rightarrow> captures \<Rightarrow> rep_count \<Rightarrow> captures \<times> (nat \<times> captures) option" where
  "run ctx [] p c rep =
     (if not_null ctx \<and> p = search_begin ctx then (c, None) else (c, Some (p, c)))"
| "run ctx (Close n st # k) p c rep =
     (case run ctx k p (c[n := Some (st, p)]) rep of (c1, sol) \<Rightarrow> (c1[n := c ! n], sol))"
| "run ctx (Match Epsilon # k) p c rep = run ctx k p c rep"
| "run ctx (Match (Chr x) # k) p c rep =
     (if p < length (subject ctx) \<and> subject ctx ! p = x then run ctx k (Suc p) c rep
      else (c, None))"
| "run ctx (Match Any_char # k) p c rep =
     (if p < length (subject ctx) \<and> \<not> line_terminator (subject ctx ! p)
      then run ctx k (Suc p) c rep else (c, None))"
| "run ctx (Match (Bracket neg items) # k) p c rep =
     (if p < length (subject ctx) \<and> bracket_matches neg items (subject ctx ! p)
      then run ctx k (Suc p) c rep else (c, None))"
| "run ctx (Match (Seq a b) # k) p c rep = run ctx (Match a # Match b # k) p c rep"
| "run ctx (Match (Alt a b) # k) p c rep =
     (case run ctx (Match a # k) p c rep of
        (c1, Some sol) \<Rightarrow> (c1, Some sol)
      | (c1, None) \<Rightarrow> run ctx (Match b # k) p c1 rep)"
| "run ctx (Match (Group n r) # k) p c rep = run ctx (Match r # Close n p # k) p c rep"
| "run ctx (Match Bol # k) p c rep = (if at_begin ctx p then run ctx k p c rep else (c, None))"
| "run ctx (Match Eol # k) p c rep =
     (if p = length (subject ctx) then run ctx k p c rep else (c, None))"
| "run ctx (Match (Word_boundary neg) # k) p c rep =
     (if word_boundary ctx p \<noteq> neg then run ctx k p c rep else (c, None))"
| "run ctx (Match (Backref n) # k) p c rep =
     (case (if n < length c then c ! n else None) of
        None \<Rightarrow> (c, None)
      | Some (a, b) \<Rightarrow>
          if b - a \<le> length (subject ctx) - p
             \<and> take (b - a) (drop a (subject ctx)) = take (b - a) (drop p (subject ctx))
          then run ctx k (p + (b - a)) c rep
          else (c, None))"
| "run ctx (Match (Lookahead neg r) # k) p c rep =
     (case snd (run (ctx\<lparr>search_begin := p\<rparr>) [Match r] p c (\<lambda>i. (0, 0))) of
        None \<Rightarrow> if neg then run ctx k p c rep else (c, None)
      | Some (q, d) \<Rightarrow>
          if neg then (merge_results c d, None) else run ctx k p (merge_results c d) rep)"
| "run ctx (Match (Loop i neg r) # k) p c rep =
     (if neg then
        (case run ctx k p c rep of
           (c1, Some sol) \<Rightarrow> (c1, Some sol)
         | (c1, None) \<Rightarrow>
             (case rep_once_more rep i p of
                None \<Rightarrow> (c1, None)
              | Some rep1 \<Rightarrow> run ctx (Match r # Match (Loop i neg r) # k) p c1 rep1))
      else
        (case (case rep_once_more rep i p of
                 None \<Rightarrow> (c, None)
               | Some rep1 \<Rightarrow> run ctx (Match r # Match (Loop i neg r) # k) p c rep1) of
           (c1, Some sol) \<Rightarrow> (c1, Some sol)
         | (c1, None) \<Rightarrow> run ctx k p c1 rep))"
| "run ctx (Match (Opt i neg r) # k) p c rep =
     (if neg then
        (case run ctx k p c rep of
           (c1, Some sol) \<Rightarrow> (c1, Some sol)
         | (c1, None) \<Rightarrow>
             (case rep_once_more rep i p of
                None \<Rightarrow> (c1, None)
              | Some rep1 \<Rightarrow> run ctx (Match r # k) p c1 rep1))
      else
        (case (case rep_once_more rep i p of
                 None \<Rightarrow> (c, None)
               | Some rep1 \<Rightarrow> run ctx (Match r # k) p c rep1) of
           (c1, Some sol) \<Rightarrow> (c1, Some sol)
         | (c1, None) \<Rightarrow> run ctx k p c1 rep))"
  by pat_completeness auto
termination
proof (relation "inv_image (less_than <*lex*> less_than <*lex*> less_than <*lex*> less_than) rank")
  show "wf (inv_image (less_than <*lex*> less_than <*lex*> less_than <*lex*> less_than) rank)"
    by (intro wf_inv_image wf_lex_prod wf_less_than)
qed ((rule rank_look | (rule rank_loop, simp) | (rule rank_step; auto dest: entries_left_once_more(1))))+

text \<open>A solution ends no earlier than the search stands, and within the subject.\<close>

lemma run_bounds:
  "run ctx k p c rep = (c1, Some (q, d)) \<Longrightarrow> p \<le> q \<and> (q \<le> length (subject ctx) \<or> q = p)"
proof (induction ctx k p c rep arbitrary: c1 q d rule: run.induct)
  case (2 ctx n st k p c rep)
  then show ?case by (auto split: prod.splits)
next
  case (8 ctx a b k p c rep)
  then show ?case by (auto split: prod.splits option.splits)
next
  case (13 ctx n k p c rep)
  then show ?case by (fastforce split: option.splits if_splits)
next
  case (14 ctx neg r k p c rep)
  show ?case
  proof (cases "snd (run (ctx\<lparr>search_begin := p\<rparr>) [Match r] p c (\<lambda>i. (0, 0)))")
    case None
    with "14.prems" "14.IH"(2) show ?thesis
      by (auto split: if_splits)
  next
    case (Some sol)
    obtain q' d' where sol: "sol = (q', d')"
      by (cases sol)
    with Some "14.prems" have "\<not> neg" and "run ctx k p (merge_results c d') rep = (c1, Some (q, d))"
      by (auto split: if_splits)
    with "14.IH"(3)[OF Some[unfolded sol] refl] "14.prems" show ?thesis
      by auto
  qed
next
  case (15 ctx i neg r k p c rep)
  then show ?case by (auto split: prod.splits option.splits if_splits)
next
  case (16 ctx i neg r k p c rep)
  then show ?case by (auto split: prod.splits option.splits if_splits)
qed (auto split: if_splits)

lemma run_not_null:
  "run ctx k p c rep = (c1, Some (q, d)) \<Longrightarrow> not_null ctx \<Longrightarrow> q \<noteq> search_begin ctx"
proof (induction ctx k p c rep arbitrary: c1 q d rule: run.induct)
  case (2 ctx n st k p c rep)
  then show ?case by (auto split: prod.splits)
next
  case (8 ctx a b k p c rep)
  then show ?case by (auto split: prod.splits option.splits)
next
  case (13 ctx n k p c rep)
  then show ?case by (fastforce split: option.splits if_splits)
next
  case (14 ctx neg r k p c rep)
  show ?case
  proof (cases "snd (run (ctx\<lparr>search_begin := p\<rparr>) [Match r] p c (\<lambda>i. (0, 0)))")
    case None
    with "14.prems" "14.IH"(2) show ?thesis
      by (auto split: if_splits)
  next
    case (Some sol)
    obtain q' d' where sol: "sol = (q', d')"
      by (cases sol)
    with Some "14.prems" have "\<not> neg" and "run ctx k p (merge_results c d') rep = (c1, Some (q, d))"
      by (auto split: if_splits)
    with "14.IH"(3)[OF Some[unfolded sol] refl] "14.prems" show ?thesis
      by auto
  qed
next
  case (15 ctx i neg r k p c rep)
  then show ?case by (auto split: prod.splits option.splits if_splits)
next
  case (16 ctx i neg r k p c rep)
  then show ?case by (auto split: prod.splits option.splits if_splits)
qed (auto split: if_splits)

subsection \<open>Searching\<close>

text \<open>
  One attempt of a search (\<open>_M_search_from_first\<close>): the pattern from the position where
  the search begins, with no group matched and every repeat count at zero.
\<close>

definition search_from_first :: "basic_regex \<Rightarrow> search \<Rightarrow> (nat \<times> captures) option" where
  "search_from_first rx ctx =
     snd (run ctx [Match (automaton rx)] (search_begin ctx)
            (replicate (Suc (mark_count rx)) None) (\<lambda>i. (0, 0)))"

text \<open>
  \<open>std::regex_search\<close> on the subject from a position (\<open>_M_search\<close>): an attempt where
  the search begins and, unless the match is to be \<open>match_continuous\<close>, at every
  position after it up to the end of the subject, where the text before is known to be
  there. A match is the position where it begins, the position where it ends and its
  groups.
\<close>

fun search_each :: "basic_regex \<Rightarrow> search \<Rightarrow> nat list \<Rightarrow> (nat \<times> nat \<times> captures) option" where
  "search_each rx ctx [] = None"
| "search_each rx ctx (i # candidates) =
     (case search_from_first rx (ctx\<lparr>search_begin := i\<rparr>) of
        None \<Rightarrow> search_each rx ctx candidates
      | Some (q, d) \<Rightarrow> Some (i, q, d))"

definition regex_search ::
  "basic_regex \<Rightarrow> string \<Rightarrow> nat \<Rightarrow> bool \<Rightarrow> bool \<Rightarrow> bool \<Rightarrow> (nat \<times> nat \<times> captures) option" where
  "regex_search rx s first avail nonempty continuous =
     (case search_each rx \<lparr>subject = s, search_begin = first, prev_avail = avail, not_null = nonempty\<rparr>
             [first] of
        Some found \<Rightarrow> Some found
      | None \<Rightarrow>
          if continuous then None
          else search_each rx
                 \<lparr>subject = s, search_begin = first, prev_avail = True, not_null = nonempty\<rparr>
                 [Suc first ..< Suc (length s)])"

subsection \<open>Replacing\<close>

text \<open>The text of a sub-match; empty when the group has not matched.\<close>

definition sub_match :: "string \<Rightarrow> (nat \<times> nat) option \<Rightarrow> string" where
  "sub_match s cap = (case cap of None \<Rightarrow> [] | Some (a, b) \<Rightarrow> take (b - a) (drop a s))"

definition format_sub :: "string \<Rightarrow> captures \<Rightarrow> nat \<Rightarrow> string" where
  "format_sub s caps k = (if k < length caps then sub_match s (caps ! k) else [])"

text \<open>
  \<open>match_results::format\<close> with the default rules: \<open>$$\<close> is a dollar sign, \<open>$&\<close> the match,
  \<open>$`\<close> (\<open>CHR 0x60\<close>) the text between the previous match and this one, \<open>$'\<close> (\<open>CHR 0x27\<close>)
  the text after the match, \<open>$n\<close> and \<open>$nn\<close> the group of that number (nothing when there
  is no such group); any other \<open>$\<close> stands for itself.
\<close>

fun format :: "string \<Rightarrow> nat \<Rightarrow> captures \<Rightarrow> string \<Rightarrow> string" where
  "format s prev caps [] = []"
| "format s prev caps (c # cs) =
     (if c \<noteq> CHR ''$'' then c # format s prev caps cs
      else
        (case cs of
           [] \<Rightarrow> [CHR ''$'']
         | d # ds \<Rightarrow>
             if d = CHR ''$'' then CHR ''$'' # format s prev caps ds
             else if d = CHR ''&'' then format_sub s caps 0 @ format s prev caps ds
             else if d = CHR 0x60 then
               sub_match s (Some (prev, fst (the (caps ! 0)))) @ format s prev caps ds
             else if d = CHR 0x27 then drop (snd (the (caps ! 0))) s @ format s prev caps ds
             else if is_digit d then
               (case ds of
                  [] \<Rightarrow> format_sub s caps (digit_value d)
                | e # es \<Rightarrow>
                    if is_digit e then
                      format_sub s caps (10 * digit_value d + digit_value e) @ format s prev caps es
                    else format_sub s caps (digit_value d) @ format s prev caps ds)
             else CHR ''$'' # format s prev caps cs))"

text \<open>
  The next match of a \<open>std::regex_iterator\<close> (\<open>operator++\<close>) after the match from \<open>i\<close> to
  \<open>j\<close>. After an empty match the iterator first looks for a non-empty match at the same
  place, with the flags it has, and then moves one character on; an empty match at the
  end of the subject is the last one. Every other search is told that the text before
  its beginning is there, and the iterator keeps that flag: \<open>avail\<close> says whether it has
  it, and comes back with the match.
\<close>

definition next_match ::
  "basic_regex \<Rightarrow> string \<Rightarrow> bool \<Rightarrow> nat \<Rightarrow> nat \<Rightarrow> (nat \<times> nat \<times> captures) option \<times> bool" where
  "next_match rx s avail i j =
     (if i = j then
        (if length s \<le> j then (None, avail)
         else
           (case regex_search rx s j avail True True of
              Some found \<Rightarrow> (Some found, avail)
            | None \<Rightarrow> (regex_search rx s (Suc j) True False False, True)))
      else (regex_search rx s j True False False, True))"

text \<open>Where a match lies.\<close>

lemma search_from_first_Some:
  assumes "search_from_first rx ctx = Some (q, d)"
  shows "search_begin ctx \<le> q \<and> (q \<le> length (subject ctx) \<or> q = search_begin ctx)
    \<and> (not_null ctx \<longrightarrow> q \<noteq> search_begin ctx)"
proof -
  obtain c1 where run: "run ctx [Match (automaton rx)] (search_begin ctx)
      (replicate (Suc (mark_count rx)) None) (\<lambda>i. (0, 0)) = (c1, Some (q, d))"
    using assms unfolding search_from_first_def by (metis prod.collapse)
  from run_bounds[OF run] run_not_null[OF run] show ?thesis
    by auto
qed

lemma search_each_Some:
  assumes "search_each rx ctx candidates = Some (i, j, caps)"
  shows "i \<in> set candidates \<and> i \<le> j \<and> (j \<le> length (subject ctx) \<or> j = i)
    \<and> (not_null ctx \<longrightarrow> j \<noteq> i)"
  using assms
proof (induction candidates)
  case Nil
  then show ?case by simp
next
  case (Cons k candidates)
  show ?case
  proof (cases "search_from_first rx (ctx\<lparr>search_begin := k\<rparr>)")
    case None
    with Cons show ?thesis by simp
  next
    case (Some sol)
    with Cons.prems have "sol = (j, caps)" "i = k"
      by (auto split: prod.splits)
    with search_from_first_Some[of rx "ctx\<lparr>search_begin := k\<rparr>" j caps] Some show ?thesis
      by simp
  qed
qed

lemma regex_search_Some:
  assumes "regex_search rx s first avail nonempty continuous = Some (i, j, caps)"
  shows "first \<le> i \<and> i \<le> j \<and> (j \<le> length s \<or> j = i) \<and> (nonempty \<longrightarrow> j \<noteq> i)
    \<and> (if continuous then i = first else i \<le> length s \<or> i = first)"
proof (cases "search_each rx
    \<lparr>subject = s, search_begin = first, prev_avail = avail, not_null = nonempty\<rparr> [first]")
  case (Some found)
  with assms have "search_each rx
      \<lparr>subject = s, search_begin = first, prev_avail = avail, not_null = nonempty\<rparr> [first]
      = Some (i, j, caps)"
    by (simp add: regex_search_def)
  from search_each_Some[OF this] show ?thesis
    by auto
next
  case None
  with assms have "search_each rx
      \<lparr>subject = s, search_begin = first, prev_avail = True, not_null = nonempty\<rparr>
      [Suc first ..< Suc (length s)] = Some (i, j, caps)" and "\<not> continuous"
    by (auto simp: regex_search_def split: if_splits)
  from search_each_Some[OF this(1)] this(2) show ?thesis
    by auto
qed

lemma next_match_Some:
  assumes "next_match rx s avail i j = (Some (i', j', caps'), avail')"
  shows "j \<le> i' \<and> i' \<le> j' \<and> (j' \<le> length s \<or> j' = i' \<and> i' = j) \<and> (i = j \<longrightarrow> j < j')"
proof (cases "i = j")
  case False
  with assms have "regex_search rx s j True False False = Some (i', j', caps')"
    by (simp add: next_match_def)
  from regex_search_Some[OF this] False show ?thesis by auto
next
  case True
  show ?thesis
  proof (cases "regex_search rx s j avail True True")
    case None
    with assms True have "regex_search rx s (Suc j) True False False = Some (i', j', caps')"
        and "j < length s"
      by (auto simp: next_match_def split: if_splits)
    from regex_search_Some[OF this(1)] this(2) True show ?thesis by auto
  next
    case (Some f)
    with assms True have "regex_search rx s j avail True True = Some (i', j', caps')"
        and "j < length s"
      by (auto simp: next_match_def split: if_splits)
    from regex_search_Some[OF this(1)] this(2) True show ?thesis by auto
  qed
qed

lemma next_match_measure:
  assumes "next_match rx s avail i j = (Some (i', j', caps'), avail')"
  shows "2 * (length s - j') + (if i' = j' then 0 else 1)
       < 2 * (length s - j) + (if i = j then 0 else 1)"
proof (cases "i = j")
  case True
  with assms have "j < length s"
    by (auto simp: next_match_def split: if_splits)
  with next_match_Some[OF assms] True show ?thesis by auto
next
  case False
  with next_match_Some[OF assms] show ?thesis by auto
qed

text \<open>
  \<open>std::regex_replace\<close> with the default flags walks the matches of the iterator: for
  each it copies the text since the previous match and the formatted replacement, and
  after the last one the rest of the subject. \<open>prev\<close> is where the previous match ended.
  Each step leaves less of the subject, or follows an empty match by a non-empty one.
\<close>

function replace_matches ::
  "basic_regex \<Rightarrow> string \<Rightarrow> string \<Rightarrow> bool \<Rightarrow> nat \<Rightarrow> nat \<times> nat \<times> captures \<Rightarrow> string" where
  "replace_matches rx s fmt avail prev (i, j, caps) =
     (let piece = sub_match s (Some (prev, i)) @ format s prev caps fmt
      in case next_match rx s avail i j of
           (None, avail') \<Rightarrow> piece @ drop j s
         | (Some found, avail') \<Rightarrow> piece @ replace_matches rx s fmt avail' j found)"
  by pat_completeness auto
termination
  by (relation "measure (\<lambda>(rx, s, fmt, avail, prev, i, j, caps).
        2 * (length s - j) + (if i = j then 0 else 1))")
    (auto dest!: next_match_measure[OF sym])

definition std_regex_replace :: "basic_regex \<Rightarrow> string \<Rightarrow> string \<Rightarrow> string" where
  "std_regex_replace rx s fmt =
     (case regex_search rx s 0 False False False of
        None \<Rightarrow> s
      | Some found \<Rightarrow> replace_matches rx s fmt False 0 found)"

text \<open>
  The engine as the program sees it. An exception carries a message, here the name of
  its error code. libstdc++ throws only when it compiles a pattern, and every match
  comes to an end; the standard lets an implementation give up on a match that costs
  too much and throw (\<open>error_stack\<close>), and the engine has a parameter for that: with
  the limit \<open>None\<close> it is libstdc++, with a limit it gives up on a subject that is longer.
\<close>

definition regex_error_what :: "error_type \<Rightarrow> string" where
  "regex_error_what e =
     (case e of
        error_collate \<Rightarrow> ''error_collate'' | error_ctype \<Rightarrow> ''error_ctype''
      | error_escape \<Rightarrow> ''error_escape'' | error_backref \<Rightarrow> ''error_backref''
      | error_brack \<Rightarrow> ''error_brack'' | error_paren \<Rightarrow> ''error_paren''
      | error_brace \<Rightarrow> ''error_brace'' | error_badbrace \<Rightarrow> ''error_badbrace''
      | error_range \<Rightarrow> ''error_range'' | error_space \<Rightarrow> ''error_space''
      | error_badrepeat \<Rightarrow> ''error_badrepeat'' | error_complexity \<Rightarrow> ''error_complexity''
      | error_stack \<Rightarrow> ''error_stack'')"

definition model_regex_assign :: "string \<Rightarrow> string + basic_regex" where
  "model_regex_assign p =
     (case compile p of Inl e \<Rightarrow> Inl (regex_error_what e) | Inr rx \<Rightarrow> Inr rx)"

definition model_regex_replace :: "nat option \<Rightarrow> basic_regex \<Rightarrow> string \<Rightarrow> string \<Rightarrow> string + string" where
  "model_regex_replace limit rx s fmt =
     (case limit of
        None \<Rightarrow> Inr (std_regex_replace rx s fmt)
      | Some n \<Rightarrow>
          if n < length s then Inl (regex_error_what error_stack)
          else Inr (std_regex_replace rx s fmt))"

section \<open>A file system to run the program on\<close>

text \<open>
  The theorems about the program hold for every environment. To run the program, here is
  a small one: the nodes of a file system by path name, in the order in which a directory
  walk yields them. It renames regular files, which is all the program asks for, and
  reports failures with messages in the style of \<open>std::filesystem::filesystem_error\<close>.
\<close>

datatype file_type = Regular | Directory

record file_system =
  nodes :: "(string \<times> file_type) list"

definition fs_error :: "string \<Rightarrow> string \<Rightarrow> string list \<Rightarrow> string" where
  "fs_error what reason paths =
     ''filesystem error: '' @ what @ '': '' @ reason @ concat (map (\<lambda>p. '' ['' @ p @ '']'') paths)"

text \<open>The current directory of the process, when it can be determined.\<close>

definition model_current_path :: "string option \<Rightarrow> string + string" where
  "model_current_path cwd =
     (case cwd of
        None \<Rightarrow> Inl (fs_error ''cannot get current path'' ''No such file or directory'' [])
      | Some d \<Rightarrow> Inr d)"

text \<open>The part of a path name below a directory, if it lies there.\<close>

definition below :: "string \<Rightarrow> string \<Rightarrow> string option" where
  "below dir p =
     (let d = (if has_filename dir then dir @ [separator] else dir)
      in if length d < length p \<and> take (length d) p = d then Some (drop (length d) p) else None)"

definition model_iterator :: "bool \<Rightarrow> file_system \<Rightarrow> string \<Rightarrow> string list \<times> string option" where
  "model_iterator deep f dir =
     (case map_of (nodes f) dir of
        None \<Rightarrow>
          ([], Some (fs_error ''directory iterator cannot open directory''
                       ''No such file or directory'' [dir]))
      | Some Regular \<Rightarrow>
          ([], Some (fs_error ''directory iterator cannot open directory'' ''Not a directory'' [dir]))
      | Some Directory \<Rightarrow>
          (filter (\<lambda>p. case below dir p of None \<Rightarrow> False | Some rest \<Rightarrow> deep \<or> separator \<notin> set rest)
             (map fst (nodes f)), None))"

definition model_is_regular_file :: "file_system \<Rightarrow> string \<Rightarrow> string + bool" where
  "model_is_regular_file f p = Inr (map_of (nodes f) p = Some Regular)"

definition parent_directory :: "string \<Rightarrow> string" where
  "parent_directory p =
     (let d = remove_filename p
      in if d = [] then ''.'' else if d = [separator] then d else butlast d)"

definition model_rename :: "file_system \<Rightarrow> string \<Rightarrow> string \<Rightarrow> string + file_system" where
  "model_rename f src dst =
     (if map_of (nodes f) src = Some Regular \<and> filename dst \<noteq> []
         \<and> map_of (nodes f) (parent_directory dst) = Some Directory
      then
        (if map_of (nodes f) dst = Some Directory
         then Inl (fs_error ''cannot rename'' ''Is a directory'' [src, dst])
         else if src = dst then Inr f
         else Inr (f\<lparr>nodes := map (\<lambda>(p, t). if p = src then (dst, t) else (p, t))
                                  (filter (\<lambda>(p, t). p \<noteq> dst) (nodes f))\<rparr>))
      else Inl (fs_error ''cannot rename'' ''No such file or directory'' [src, dst]))"

text \<open>
  The environment made of the engine with a given limit (\<open>None\<close> for libstdc++), a
  process in a given current directory and this file system.
\<close>

definition model_sys :: "nat option \<Rightarrow> string option \<Rightarrow> (file_system, basic_regex) sys" where
  "model_sys limit cwd =
     \<lparr>regex_assign = model_regex_assign,
      regex_replace = model_regex_replace limit,
      current_path = model_current_path cwd,
      directory_iterator = model_iterator False,
      recursive_directory_iterator = model_iterator True,
      is_regular_file = model_is_regular_file,
      fs_rename = model_rename\<rparr>"

text \<open>The world in which a process starts: nothing written, nothing called.\<close>

definition at_start :: "'fs \<Rightarrow> 'fs world" where
  "at_start f = \<lparr>fs = f, cout = [], cerr = [], calls = []\<rparr>"

subsection \<open>Examples\<close>

text \<open>
  The pattern \<open>file_(\<close>backslash\<open>d+)\<close>backslash\<open>.txt\<close> of the program's help text, compiled, and a
  directory with a file it matches, a file it does not match and a subdirectory.
\<close>

definition digits_pattern :: string where
  "digits_pattern = ''file_('' @ CHR 0x5C # ''d+)'' @ CHR 0x5C # ''.txt''"

definition digits_regex :: basic_regex where
  "digits_regex =
     \<lparr>automaton =
        Group 0
          (foldr Seq
             [Chr CHR ''f'', Chr CHR ''i'', Chr CHR ''l'', Chr CHR ''e'', Chr CHR ''_'',
              Group 1
                (Seq (Seq (Bracket False [Class C_digit]) (Loop 0 False (Bracket False [Class C_digit])))
                   Epsilon),
              Chr CHR ''.'', Chr CHR ''t'', Chr CHR ''x'', Chr CHR ''t'']
             Epsilon),
      mark_count = 1\<rparr>"

definition example_args :: arguments where
  "example_args =
     \<lparr>pattern = digits_pattern, replacement = ''File_$1.txt'', path = Some ''.'',
      dry_run = False, recursive = False, quiet = False\<rparr>"

definition example_fs :: file_system where
  "example_fs =
     \<lparr>nodes = [(''.'', Directory), (''./file_abc.txt'', Regular), (''./sub'', Directory),
               (''./file_42.txt'', Regular), (''./sub/file_7.txt'', Regular)]\<rparr>"

text \<open>The engine of libstdc++, in a process whose current directory is known.\<close>

definition example_sys :: "(file_system, basic_regex) sys" where
  "example_sys = model_sys None (Some ''/home/u'')"

subsection \<open>More examples\<close>

text \<open>A directory in which the first rename fails: the new name of \<open>a_old\<close> is a directory.\<close>

definition old_regex :: basic_regex where
  "old_regex =
     \<lparr>automaton = Group 0 (foldr Seq [Chr CHR ''o'', Chr CHR ''l'', Chr CHR ''d''] Epsilon),
      mark_count = 0\<rparr>"

definition old_args :: arguments where
  "old_args =
     \<lparr>pattern = ''old'', replacement = ''new'', path = Some ''.'',
      dry_run = False, recursive = False, quiet = False\<rparr>"

definition old_fs :: file_system where
  "old_fs =
     \<lparr>nodes = [(''.'', Directory), (''./b_old'', Regular), (''./a_new'', Directory),
               (''./a_old'', Regular)]\<rparr>"

text \<open>
  An engine that gives up on a subject of more than eight characters, and a directory
  whose second file has a longer name.
\<close>

definition small_sys :: "(file_system, basic_regex) sys" where
  "small_sys = model_sys (Some 8) (Some ''/home/u'')"

definition run_regex :: basic_regex where
  "run_regex =
     \<lparr>automaton = Group 0 (Seq (Seq (Chr CHR ''a'') (Loop 0 False (Chr CHR ''a''))) Epsilon),
      mark_count = 0\<rparr>"

definition run_args :: arguments where
  "run_args =
     \<lparr>pattern = ''a+'', replacement = ''b'', path = Some ''.'',
      dry_run = False, recursive = False, quiet = False\<rparr>"

definition run_fs :: file_system where
  "run_fs =
     \<lparr>nodes = [(''.'', Directory), (''./ab.txt'', Regular), (''./aaaaaaaa.txt'', Regular),
               (''./aa.txt'', Regular)]\<rparr>"





text \<open>A replacement that holds a separator, and a directory where it leads somewhere.\<close>

definition slash_args :: arguments where
  "slash_args =
     \<lparr>pattern = ''_'', replacement = ''/'', path = Some ''.'',
      dry_run = False, recursive = False, quiet = False\<rparr>"

definition slash_fs :: file_system where
  "slash_fs =
     \<lparr>nodes = [(''.'', Directory), (''./a'', Directory), (''./a_b'', Regular)]\<rparr>"

text \<open>A file beside a directory whose name is the beginning of its own, and a file in that directory.\<close>

definition dot_args :: arguments where
  "dot_args =
     \<lparr>pattern = ''b'', replacement = ''c'', path = Some ''.'',
      dry_run = False, recursive = True, quiet = False\<rparr>"

definition dot_fs :: file_system where
  "dot_fs =
     \<lparr>nodes = [(''.'', Directory), (''./a.b'', Regular), (''./a'', Directory), (''./a/b'', Regular)]\<rparr>"

text \<open>
  A process whose current directory cannot be determined (it was removed, say), walking
  a directory beside it that is named by a relative path.
\<close>

definition lost_args :: arguments where
  "lost_args =
     \<lparr>pattern = ''a'', replacement = ''b'', path = Some ''../d'',
      dry_run = False, recursive = True, quiet = False\<rparr>"

definition lost_fs :: file_system where
  "lost_fs = \<lparr>nodes = [(''../d'', Directory), (''../d/a.txt'', Regular)]\<rparr>"

definition lost_sys :: "(file_system, basic_regex) sys" where
  "lost_sys = model_sys None None"

section \<open>Properties\<close>

subsection \<open>Notions used in the statements\<close>

text \<open>The renames among the file-system calls of a run, each with its source and destination.\<close>

fun rename_calls :: "fs_call list \<Rightarrow> (string \<times> string) list" where
  "rename_calls [] = []"
| "rename_calls (Rename src dst # cs) = (src, dst) # rename_calls cs"
| "rename_calls (Iterate deep base # cs) = rename_calls cs"

text \<open>
  The name the substitution gives an entry (its own name when the engine fails), and the
  renames this asks for over a list of entries.
\<close>

definition computed_filename :: "('fs, 'rx) sys \<Rightarrow> arguments \<Rightarrow> 'rx \<Rightarrow> string \<Rightarrow> string" where
  "computed_filename sys args pat e =
     (case regex_replace sys pat (filename e) (replacement args) of
        Inl what \<Rightarrow> filename e
      | Inr out \<Rightarrow> out)"

definition planned_renames ::
  "('fs, 'rx) sys \<Rightarrow> arguments \<Rightarrow> 'rx \<Rightarrow> string list \<Rightarrow> (string \<times> string) list" where
  "planned_renames sys args pat entries =
     map (\<lambda>e. (e, replace_filename e (computed_filename sys args pat e)))
       (filter (\<lambda>e. computed_filename sys args pat e \<noteq> filename e) entries)"


text \<open>
  The display names of a list of entries exist when they are file names, or when the
  current directory can be read and every entry lies in a directory, as the entries of
  a directory walk do.
\<close>

definition display_names_exist :: "('fs, 'rx) sys \<Rightarrow> arguments \<Rightarrow> string list \<Rightarrow> bool" where
  "display_names_exist sys args entries =
     (if recursive args
      then (case current_path sys of
              Inl what \<Rightarrow> False
            | Inr d \<Rightarrow> list_all (\<lambda>e. separator \<in> set e) entries)
      else True)"

subsection \<open>The substitution in the words of the spec\<close>











text \<open>A world with what was written to \<open>std::cout\<close> left out.\<close>

definition silent :: "'fs world \<Rightarrow> 'fs world" where
  "silent w = w\<lparr>cout := []\<rparr>"

subsection \<open>The loop, entry by entry\<close>

lemma rename_calls_append: "rename_calls (xs @ ys) = rename_calls xs @ rename_calls ys"
  by (induction xs rule: rename_calls.induct) simp_all

lemma rename_entry_same:
  "regex_replace sys pat (filename e) (replacement args) = Inr (filename e) \<Longrightarrow>
   rename_entry sys args pat e w = (Returned, w)"
  by (simp add: rename_entry_def)

lemma rename_entry_fatal:
  "regex_replace sys pat (filename e) (replacement args) = Inl what \<Longrightarrow>
   rename_entry sys args pat e w = (Exit EXIT_FAILURE, w\<lparr>cerr := cerr w @ [error_prefix @ what]\<rparr>)"
  by (simp add: rename_entry_def fatal_def report_error_def)

lemma rename_entry_changed:
  "regex_replace sys pat (filename e) (replacement args) = Inr out \<Longrightarrow> out \<noteq> filename e \<Longrightarrow>
   rename_entry sys args pat e w =
     (case report sys args e (replace_filename e out) w of
        None \<Rightarrow> (Terminated, w)
      | Some w' \<Rightarrow> (Returned, apply_rename sys args e (replace_filename e out) w'))"
  by (auto simp add: rename_entry_def Let_def)

lemma rename_loop_append:
  "rename_loop sys args pat (xs @ ys) w =
     (case rename_loop sys args pat xs w of
        (Returned, w') \<Rightarrow> rename_loop sys args pat ys w'
      | stop \<Rightarrow> stop)"
proof (induction xs arbitrary: w)
  case Nil
  show ?case by simp
next
  case (Cons x xs)
  show ?case
  proof (cases "rename_entry sys args pat x w")
    case (Pair c w')
    then show ?thesis using Cons.IH[of w'] by (cases c) simp_all
  qed
qed

lemma report_frame:
  "report sys args src dst w = Some w' \<Longrightarrow> fs w' = fs w \<and> cerr w' = cerr w \<and> calls w' = calls w"
  by (auto simp: report_def split: if_splits option.splits)

lemma report_quiet: "quiet args \<Longrightarrow> report sys args src dst w = Some w"
  by (simp add: report_def)

lemma report_filenames:
  "\<not> recursive args \<Longrightarrow> \<not> quiet args \<Longrightarrow>
   report sys args src dst w =
     Some (w\<lparr>cout := cout w @ [report_line (dry_run args) (filename src) (filename dst)]\<rparr>)"
  by (simp add: report_def path_display_name_def)

text \<open>
  A path that is not empty can be made absolute when the current directory can be read,
  and a path that lies in a directory still does after its file name is replaced.
\<close>

lemma absolute_exists: "current_path sys = Inr d \<Longrightarrow> p \<noteq> [] \<Longrightarrow> \<exists>q. absolute sys p = Some q"
  by (simp add: absolute_def)

lemma replace_filename_nonempty: "separator \<in> set e \<Longrightarrow> replace_filename e r \<noteq> []"
  by (auto simp: replace_filename_def append_path_def is_absolute_def has_root_directory_def
      remove_filename_def dropWhile_eq_Nil_conv split: list.splits)

lemma display_names_exist_Cons:
  "display_names_exist sys args (e # es) \<longleftrightarrow>
     display_names_exist sys args [e] \<and> display_names_exist sys args es"
  by (simp add: display_names_exist_def split: sum.splits)

lemma path_display_name_exists:
  assumes "display_names_exist sys args [e]"
  shows "\<exists>src. path_display_name sys (recursive args) e = Some src"
    and "\<exists>dst. path_display_name sys (recursive args) (replace_filename e r) = Some dst"
proof -
  show "\<exists>src. path_display_name sys (recursive args) e = Some src"
  proof (cases "recursive args")
    case True
    with assms obtain d where "current_path sys = Inr d" "separator \<in> set e"
      by (auto simp: display_names_exist_def split: sum.splits)
    then have "current_path sys = Inr d" "e \<noteq> []"
      by auto
    with True absolute_exists[of sys d e] show ?thesis
      by (simp add: path_display_name_def)
  qed (simp add: path_display_name_def)
  show "\<exists>dst. path_display_name sys (recursive args) (replace_filename e r) = Some dst"
  proof (cases "recursive args")
    case True
    with assms obtain d where "current_path sys = Inr d" "separator \<in> set e"
      by (auto simp: display_names_exist_def split: sum.splits)
    with True absolute_exists[of sys d "replace_filename e r"] replace_filename_nonempty[of e r]
    show ?thesis
      by (simp add: path_display_name_def)
  qed (simp add: path_display_name_def)
qed

lemma report_succeeds:
  assumes "quiet args \<or> display_names_exist sys args [e]"
  obtains w' where "report sys args e (replace_filename e r) w = Some w'"
    "fs w' = fs w" "cerr w' = cerr w" "calls w' = calls w"
proof (cases "quiet args")
  case True
  then show ?thesis using that by (simp add: report_quiet)
next
  case False
  with assms have "display_names_exist sys args [e]"
    by simp
  from path_display_name_exists(1)[OF this] path_display_name_exists(2)[OF this, of r]
  obtain src dst where "path_display_name sys (recursive args) e = Some src"
    "path_display_name sys (recursive args) (replace_filename e r) = Some dst"
    by auto
  with False show ?thesis using that by (simp add: report_def)
qed

lemma apply_rename_calls:
  "\<not> dry_run args \<Longrightarrow> calls (apply_rename sys args src dst w) = calls w @ [Rename src dst]"
  by (simp add: apply_rename_def report_error_def Let_def split: sum.splits)

lemma apply_rename_dry: "dry_run args \<Longrightarrow> apply_rename sys args src dst w = w"
  by (simp add: apply_rename_def)

lemma apply_rename_failed:
  "\<not> dry_run args \<Longrightarrow> fs_rename sys (fs w) src dst = Inl what \<Longrightarrow>
   apply_rename sys args src dst w =
     w\<lparr>calls := calls w @ [Rename src dst], cerr := cerr w @ [error_prefix @ what]\<rparr>"
  by (simp add: apply_rename_def report_error_def Let_def)

text \<open>
  When the substitution never fails and the display names exist, the loop attempts
  every rename the substitution asks for, whatever becomes of the renames before it.
\<close>

lemma rename_loop_attempts_all:
  assumes "\<forall>e\<in>set entries. \<exists>out. regex_replace sys pat (filename e) (replacement args) = Inr out"
    and "quiet args \<or> display_names_exist sys args entries" and "\<not> dry_run args"
  shows "fst (rename_loop sys args pat entries w) = Returned
       \<and> rename_calls (calls (snd (rename_loop sys args pat entries w))) =
           rename_calls (calls w) @ planned_renames sys args pat entries"
  using assms(1,2)
proof (induction entries arbitrary: w)
  case Nil
  show ?case by (simp add: planned_renames_def)
next
  case (Cons e entries)
  from Cons.prems obtain out where out: "regex_replace sys pat (filename e) (replacement args) = Inr out"
    by auto
  from Cons.prems
  have rest: "\<forall>e\<in>set entries. \<exists>out. regex_replace sys pat (filename e) (replacement args) = Inr out"
    by simp
  from Cons.prems(2) display_names_exist_Cons[of sys args e entries]
  have names: "quiet args \<or> display_names_exist sys args [e]"
      "quiet args \<or> display_names_exist sys args entries"
    by auto
  show ?case
  proof (cases "out = filename e")
    case True
    with out have "rename_entry sys args pat e w = (Returned, w)"
      by (simp add: rename_entry_same)
    moreover from out True
    have "planned_renames sys args pat (e # entries) = planned_renames sys args pat entries"
      by (simp add: planned_renames_def computed_filename_def)
    ultimately show ?thesis using Cons.IH[OF rest names(2), of w] by simp
  next
    case False
    obtain w' where w': "report sys args e (replace_filename e out) w = Some w'" "calls w' = calls w"
      using report_succeeds[OF names(1)] by metis
    let ?w = "apply_rename sys args e (replace_filename e out) w'"
    from out False w' have step: "rename_entry sys args pat e w = (Returned, ?w)"
      by (simp add: rename_entry_changed)
    have "calls ?w = calls w @ [Rename e (replace_filename e out)]"
      using assms(3) w'(2) by (simp add: apply_rename_calls)
    moreover from out False have "planned_renames sys args pat (e # entries) =
        (e, replace_filename e out) # planned_renames sys args pat entries"
      by (simp add: planned_renames_def computed_filename_def)
    ultimately show ?thesis using Cons.IH[OF rest names(2), of ?w] step
      by (simp add: rename_calls_append)
  qed
qed

lemma rename_unfold:
  assumes "regex_assign sys (pattern args) = Inr pat"
    and "resolve_path sys args = Inr base"
    and "enumerate_entries sys args (fs w) base = Inr entries"
  shows "rename sys args w =
      rename_loop sys args pat (sort_entries entries)
        (w\<lparr>calls := calls w @ [Iterate (recursive args) base]\<rparr>)"
  using assms by (simp add: rename_def apply_phase_def Let_def)

lemma main_world: "snd (main sys args w) = snd (rename sys args w)"
  by (simp add: main_def split: prod.splits ctl.splits)

subsection \<open>Dry runs\<close>

lemma rename_entry_dry:
  assumes "dry_run args"
  shows "fs (snd (rename_entry sys args pat e w)) = fs w
       \<and> calls (snd (rename_entry sys args pat e w)) = calls w"
proof (cases "regex_replace sys pat (filename e) (replacement args)")
  case (Inl what)
  then show ?thesis by (simp add: rename_entry_fatal)
next
  case (Inr out)
  show ?thesis
  proof (cases "out = filename e")
    case True
    with Inr show ?thesis by (simp add: rename_entry_same)
  next
    case False
    with Inr assms show ?thesis
      by (auto simp: rename_entry_changed apply_rename_dry split: option.splits dest: report_frame)
  qed
qed

lemma rename_loop_dry:
  assumes "dry_run args"
  shows "fs (snd (rename_loop sys args pat entries w)) = fs w
       \<and> calls (snd (rename_loop sys args pat entries w)) = calls w"
proof (induction entries arbitrary: w)
  case Nil
  show ?case by simp
next
  case (Cons e entries)
  obtain c w' where step: "rename_entry sys args pat e w = (c, w')"
    by (cases "rename_entry sys args pat e w")
  with rename_entry_dry[OF assms, of sys pat e w] have "fs w' = fs w" "calls w' = calls w"
    by simp_all
  with step Cons.IH[of w'] show ?case
    by (cases c) simp_all
qed

lemma rename_dry:
  assumes "dry_run args"
  shows "fs (snd (rename sys args w)) = fs w
      \<and> rename_calls (calls (snd (rename sys args w))) = rename_calls (calls w)"
proof (cases "regex_assign sys (pattern args)")
  case (Inl what)
  then show ?thesis by (simp add: rename_def fatal_def report_error_def)
next
  case pat: (Inr pat)
  show ?thesis
  proof (cases "resolve_path sys args")
    case (Inl what)
    with pat show ?thesis by (simp add: rename_def fatal_def report_error_def)
  next
    case base: (Inr base)
    show ?thesis
    proof (cases "enumerate_entries sys args (fs w) base")
      case (Inl what)
      with pat base show ?thesis
        by (simp add: rename_def fatal_def report_error_def Let_def rename_calls_append)
    next
      case (Inr entries)
      with pat base rename_loop_dry[OF assms, of sys pat "sort_entries entries"
          "w\<lparr>calls := calls w @ [Iterate (recursive args) base]\<rparr>"]
      show ?thesis
        by (simp add: rename_unfold rename_calls_append)
    qed
  qed
qed

subsection \<open>Path names\<close>

lemma takeWhile_after_dropWhile: "takeWhile P (dropWhile P xs) = []"
  by (induction xs) simp_all

lemma dropWhile_skip: "\<forall>y\<in>set ys. P y \<Longrightarrow> dropWhile P (ys @ dropWhile P xs) = dropWhile P xs"
  by (induction ys) (simp_all add: dropWhile_idem)

lemma takeWhile_skip: "\<forall>y\<in>set ys. P y \<Longrightarrow> takeWhile P (ys @ dropWhile P xs) = ys"
  by (induction ys) (simp_all add: takeWhile_after_dropWhile)

lemma replace_filename_relative:
  "\<not> is_absolute r \<Longrightarrow> replace_filename p r = remove_filename p @ r"
proof -
  have "filename (remove_filename p) = []"
    by (simp add: filename_def remove_filename_def takeWhile_after_dropWhile)
  then show "\<not> is_absolute r \<Longrightarrow> replace_filename p r = remove_filename p @ r"
    by (simp add: replace_filename_def append_path_def has_filename_def)
qed

lemma plain_name_is_relative: "separator \<notin> set r \<Longrightarrow> \<not> is_absolute r"
  by (cases r) (auto simp: is_absolute_def has_root_directory_def)

lemma remove_filename_replace:
  assumes "separator \<notin> set r"
  shows "remove_filename (replace_filename p r) = remove_filename p"
proof -
  have "\<forall>y\<in>set (rev r). y \<noteq> separator"
    using assms by auto
  then have "dropWhile (\<lambda>c. c \<noteq> separator) (rev r @ dropWhile (\<lambda>c. c \<noteq> separator) (rev p))
      = dropWhile (\<lambda>c. c \<noteq> separator) (rev p)"
    by (rule dropWhile_skip)
  then show ?thesis
    using assms by (simp add: replace_filename_relative plain_name_is_relative remove_filename_def)
qed

lemma filename_replace:
  assumes "separator \<notin> set r"
  shows "filename (replace_filename p r) = r"
proof -
  have "\<forall>y\<in>set (rev r). y \<noteq> separator"
    using assms by auto
  then have "takeWhile (\<lambda>c. c \<noteq> separator) (rev r @ dropWhile (\<lambda>c. c \<noteq> separator) (rev p)) = rev r"
    by (rule takeWhile_skip)
  then show ?thesis
    using assms by (simp add: replace_filename_relative plain_name_is_relative
        filename_def remove_filename_def)
qed

subsection \<open>Sorting and the order of the walk\<close>

lemma sort_key_permutation:
  assumes "mset ys = mset xs" and "inj_on f (set xs)"
  shows "sort_key f ys = sort_key f xs"
proof (rule properties_for_sort_key[symmetric])
  show "mset (sort_key f ys) = mset xs"
    using assms(1) by simp
  show "sorted (map f (sort_key f ys))"
    by simp
next
  fix k
  assume "k \<in> set (sort_key f ys)"
  then have k: "k \<in> set xs"
    using assms(1) by (metis set_mset_mset set_sort)
  have same: "filter (\<lambda>x. f k = f x) zs = filter ((=) k) zs" if "set zs \<subseteq> set xs" for zs
    using that k assms(2) by (intro filter_cong refl) (auto dest: inj_onD)
  have "filter ((=) k) (sort_key f ys) = replicate (count (mset (sort_key f ys)) k) k"
    by (rule replicate_count_mset_eq_filter_eq[symmetric])
  also have "\<dots> = replicate (count (mset xs) k) k"
    using assms(1) by simp
  also have "\<dots> = filter ((=) k) xs"
    by (rule replicate_count_mset_eq_filter_eq)
  finally have "filter ((=) k) (sort_key f ys) = filter ((=) k) xs" .
  moreover have "set (sort_key f ys) \<subseteq> set xs"
    using assms(1) by (metis set_mset_mset set_sort subset_refl)
  ultimately show "filter (\<lambda>x. f k = f x) (sort_key f ys) = filter (\<lambda>x. f k = f x) xs"
    using same by simp
qed

lemma rename_entry_calls:
  "calls (snd (rename_entry sys args pat e w)) = calls w
   \<or> (\<exists>dst. calls (snd (rename_entry sys args pat e w)) = calls w @ [Rename e dst])"
proof (cases "regex_replace sys pat (filename e) (replacement args)")
  case (Inl what)
  then show ?thesis by (simp add: rename_entry_fatal)
next
  case (Inr out)
  show ?thesis
  proof (cases "out = filename e")
    case True
    with Inr show ?thesis by (simp add: rename_entry_same)
  next
    case False
    show ?thesis
    proof (cases "report sys args e (replace_filename e out) w")
      case None
      with Inr False show ?thesis by (simp add: rename_entry_changed)
    next
      case (Some w')
      with Inr False report_frame[OF Some] show ?thesis
        by (cases "dry_run args") (simp_all add: rename_entry_changed apply_rename_dry apply_rename_calls)
    qed
  qed
qed

lemma subseq_at_head: "subseq xs [e] \<Longrightarrow> subseq xs (e # entries)"
  using list_emb_append_mono[of "(=)" xs "[e]" "[]" entries] by simp

lemma rename_loop_calls_in_order:
  "\<exists>rs. rename_calls (calls (snd (rename_loop sys args pat entries w))) = rename_calls (calls w) @ rs
        \<and> subseq (map fst rs) entries"
proof (induction entries arbitrary: w)
  case Nil
  show ?case by simp
next
  case (Cons e entries)
  obtain c w' where step: "rename_entry sys args pat e w = (c, w')"
    by (cases "rename_entry sys args pat e w")
  from rename_entry_calls[of sys args pat e w] step
  obtain r where r: "rename_calls (calls w') = rename_calls (calls w) @ r" "subseq (map fst r) [e]"
    by (auto simp: rename_calls_append)
  show ?case
  proof (cases c)
    case Returned
    from Cons.IH[of w'] obtain rs where
      rs: "rename_calls (calls (snd (rename_loop sys args pat entries w'))) = rename_calls (calls w') @ rs"
        "subseq (map fst rs) entries"
      by blast
    have "subseq (map fst (r @ rs)) ([e] @ entries)"
      unfolding map_append using r(2) rs(2) by (rule list_emb_append_mono)
    with step Returned r(1) rs(1) show ?thesis
      by (intro exI[of _ "r @ rs"]) simp
  next
    case (Exit code)
    with step r(1) subseq_at_head[OF r(2)] show ?thesis
      by (intro exI[of _ r]) simp
  next
    case Terminated
    with step r(1) subseq_at_head[OF r(2)] show ?thesis
      by (intro exI[of _ r]) simp
  qed
qed

text \<open>The loop asks nothing of the directory iterators.\<close>

lemma path_display_name_ignores_iterators:
  "path_display_name (sys\<lparr>directory_iterator := it1, recursive_directory_iterator := it2\<rparr>)
     = path_display_name sys"
  by (intro ext) (simp add: path_display_name_def absolute_def)

lemma report_ignores_iterators:
  "report (sys\<lparr>directory_iterator := it1, recursive_directory_iterator := it2\<rparr>) = report sys"
  by (intro ext, unfold report_def path_display_name_ignores_iterators) (rule refl)

lemma apply_rename_ignores_iterators:
  "apply_rename (sys\<lparr>directory_iterator := it1, recursive_directory_iterator := it2\<rparr>) = apply_rename sys"
  by (intro ext) (simp add: apply_rename_def)

lemma rename_entry_ignores_iterators:
  "rename_entry (sys\<lparr>directory_iterator := it1, recursive_directory_iterator := it2\<rparr>) args pat e w
     = rename_entry sys args pat e w"
  unfolding rename_entry_def report_ignores_iterators apply_rename_ignores_iterators
  by simp

lemma rename_loop_ignores_iterators:
  "rename_loop (sys\<lparr>directory_iterator := it1, recursive_directory_iterator := it2\<rparr>) args pat entries w
     = rename_loop sys args pat entries w"
  by (induction entries arbitrary: w)
    (simp_all add: rename_entry_ignores_iterators split: prod.splits ctl.splits)

subsection \<open>The quiet flag\<close>

text \<open>
  When the display names are file names (\<open>recursive\<close> unset), a run with \<open>quiet\<close> set and
  a run without it differ in what they write to \<open>std::cout\<close> and in nothing else.
\<close>

lemma silent_eq: "silent w1 = silent w2 \<longleftrightarrow> fs w1 = fs w2 \<and> cerr w1 = cerr w2 \<and> calls w1 = calls w2 \<and> world.more w1 = world.more w2"
  by (cases w1; cases w2) (simp add: silent_def)

lemma rename_entry_quiet:
  assumes "\<not> recursive args" and "silent w1 = silent w2"
  shows "map_prod id silent (rename_entry sys (args\<lparr>quiet := True\<rparr>) pat e w1)
       = map_prod id silent (rename_entry sys (args\<lparr>quiet := False\<rparr>) pat e w2)"
proof -
  from assms(2) have same: "fs w1 = fs w2" "cerr w1 = cerr w2" "calls w1 = calls w2"
      "world.more w1 = world.more w2"
    by (simp_all add: silent_eq)
  show ?thesis
  proof (cases "regex_replace sys pat (filename e) (replacement args)")
    case (Inl what)
    with same show ?thesis
      by (simp add: rename_entry_def fatal_def report_error_def silent_eq)
  next
    case (Inr out)
    with assms(1) same show ?thesis
      by (simp add: rename_entry_def report_def path_display_name_def apply_rename_def
          report_error_def Let_def silent_eq split: sum.splits)
  qed
qed

lemma rename_loop_quiet:
  assumes "\<not> recursive args" and "silent w1 = silent w2"
  shows "map_prod id silent (rename_loop sys (args\<lparr>quiet := True\<rparr>) pat entries w1)
       = map_prod id silent (rename_loop sys (args\<lparr>quiet := False\<rparr>) pat entries w2)"
  using assms(2)
proof (induction entries arbitrary: w1 w2)
  case Nil
  then show ?case by simp
next
  case (Cons e entries)
  obtain c1 v1 where s1: "rename_entry sys (args\<lparr>quiet := True\<rparr>) pat e w1 = (c1, v1)"
    by (cases "rename_entry sys (args\<lparr>quiet := True\<rparr>) pat e w1")
  obtain c2 v2 where s2: "rename_entry sys (args\<lparr>quiet := False\<rparr>) pat e w2 = (c2, v2)"
    by (cases "rename_entry sys (args\<lparr>quiet := False\<rparr>) pat e w2")
  from rename_entry_quiet[OF assms(1) Cons.prems, of sys pat e] s1 s2
  have same: "c1 = c2" "silent v1 = silent v2"
    by simp_all
  with s1 s2 Cons.IH[OF same(2)] show ?case
    by (cases c2) simp_all
qed

lemma quiet_only_silences:
  assumes "\<not> recursive args"
  shows "map_prod id silent (rename sys (args\<lparr>quiet := True\<rparr>) w)
       = map_prod id silent (rename sys (args\<lparr>quiet := False\<rparr>) w)"
proof (cases "regex_assign sys (pattern args)")
  case (Inl what)
  then show ?thesis by (simp add: rename_def)
next
  case pat: (Inr pat)
  show ?thesis
  proof (cases "resolve_path sys args")
    case (Inl what)
    with pat show ?thesis by (simp add: rename_def resolve_path_def)
  next
    case base: (Inr base)
    show ?thesis
    proof (cases "enumerate_entries sys args (fs w) base")
      case (Inl what)
      with pat base show ?thesis
        by (simp add: rename_def resolve_path_def enumerate_entries_def Let_def)
    next
      case (Inr entries)
      have "rename sys (args\<lparr>quiet := q\<rparr>) w =
          rename_loop sys (args\<lparr>quiet := q\<rparr>) pat (sort_entries entries)
            (w\<lparr>calls := calls w @ [Iterate (recursive args) base]\<rparr>)" for q
        using pat base Inr rename_unfold[where args = "args\<lparr>quiet := q\<rparr>" and w = w, of sys pat base entries]
        by (simp add: resolve_path_def enumerate_entries_def)
      with rename_loop_quiet[OF assms refl] show ?thesis
        by simp
    qed
  qed
qed

subsection \<open>The engine\<close>
















subsection \<open>Running the examples\<close>


lemma example_base: "resolve_path example_sys example_args = Inr ''.''"
  by code_simp

lemma file_42_renamed:
  "regex_replace example_sys digits_regex (filename ''./file_42.txt'') (replacement example_args)
     = Inr ''File_42.txt''"
  by code_simp

lemma file_abc_kept:
  "regex_replace example_sys digits_regex (filename ''./file_abc.txt'') (replacement example_args)
     = Inr (filename ''./file_abc.txt'')"
  by code_simp

lemma inj_on_distinct_map: "distinct (map f xs) \<Longrightarrow> inj_on f (set xs)"
  by (simp add: distinct_map)

section \<open>The claims\<close>



text \<open>
  Claim C2, as the code has it. The claim has the entries sorted ascending by full path,
  lexicographically. The sort is \<open>std::ranges::sort\<close> on a vector of paths, and the order
  of \<open>std::filesystem::path\<close> compares two paths element by element, not their path
  names character by character. A directory \<open>./a\<close> and all that lies in it come before
  a file \<open>./a.b\<close> beside it, although the path name \<open>./a.b\<close> is before \<open>./a/b\<close>,
  \<open>.\<close> being before \<open>/\<close>. In a recursive run over these two files the file in the
  directory is reported and renamed first.
\<close>

theorem sorted_order_is_not_string_order:
  "main example_sys dot_args (at_start dot_fs) =
     (Some 0,
      \<lparr>fs = \<lparr>nodes = [(''.'', Directory), (''./a.c'', Regular), (''./a'', Directory),
                       (''./a/c'', Regular)]\<rparr>,
       cout = [''/home/u/./a/b -> /home/u/./a/c'', ''/home/u/./a.b -> /home/u/./a.c''], cerr = [],
       calls = [Iterate True ''.'', Rename ''./a/b'' ''./a/c'', Rename ''./a.b'' ''./a.c'']\<rparr>)
   \<and> ''./a.b'' < ''./a/b''"
  by code_simp

text \<open>
  Claim C2, amended. In every run that reaches the apply phase, all entries are collected
  into a list and sorted ascending in the order of \<open>std::filesystem::path\<close>
  (lexicographic in the elements of the path, after the root directory) before any
  rename is applied, and they are then processed in that order; so two runs over the
  same directory visit the entries in the same order and report the same lines,
  whatever order the file system yields them in.

  The entries are those of the file system as the run found it; the renames follow the
  sorted list; and a directory iterator that yields the same entries in another order
  gives the same run. The entries of one walk are pairwise inequivalent in the order of
  paths.
\<close>

theorem entries_sorted_before_renaming:
  assumes "regex_assign sys (pattern args) = Inr pat"
    and "resolve_path sys args = Inr base"
    and "enumerate_entries sys args (fs w) base = Inr entries"
    and "inj_on path_key (set entries)"
    and "enumerate_entries (sys\<lparr>directory_iterator := it1, recursive_directory_iterator := it2\<rparr>)
           args (fs w) base = Inr other_order"
    and "mset other_order = mset entries"
  shows "rename sys args w =
           rename_loop sys args pat (sort_entries entries)
             (w\<lparr>calls := calls w @ [Iterate (recursive args) base]\<rparr>)
       \<and> sorted (map path_key (sort_entries entries))
       \<and> mset (sort_entries entries) = mset entries
       \<and> (\<exists>rs. rename_calls (calls (snd (rename sys args w))) = rename_calls (calls w) @ rs
              \<and> subseq (map fst rs) (sort_entries entries))
       \<and> sort_entries other_order = sort_entries entries
       \<and> rename (sys\<lparr>directory_iterator := it1, recursive_directory_iterator := it2\<rparr>) args w
           = rename sys args w"
proof -
  let ?sys = "sys\<lparr>directory_iterator := it1, recursive_directory_iterator := it2\<rparr>"
  let ?w = "w\<lparr>calls := calls w @ [Iterate (recursive args) base]\<rparr>"
  have run: "rename sys args w = rename_loop sys args pat (sort_entries entries) ?w"
    using assms(1-3) by (rule rename_unfold)
  have same: "sort_entries other_order = sort_entries entries"
    unfolding sort_entries_def using assms(6,4) by (rule sort_key_permutation)
  have "regex_assign ?sys (pattern args) = Inr pat" "resolve_path ?sys args = Inr base"
    using assms(1,2) by (simp_all add: resolve_path_def split: option.splits)
  from rename_unfold[OF this assms(5)]
  have other: "rename ?sys args w = rename sys args w"
    by (simp add: run same rename_loop_ignores_iterators)
  from rename_loop_calls_in_order[of sys args pat "sort_entries entries" ?w]
  have "\<exists>rs. rename_calls (calls (snd (rename sys args w))) = rename_calls (calls w) @ rs
              \<and> subseq (map fst rs) (sort_entries entries)"
    by (simp add: run rename_calls_append)
  with run same other show ?thesis
    by (simp add: sort_entries_def)
qed

theorem entries_sorted_before_renaming_witness:
  "regex_assign example_sys (pattern (example_args\<lparr>recursive := True\<rparr>)) = Inr digits_regex
   \<and> enumerate_entries example_sys (example_args\<lparr>recursive := True\<rparr>) (fs (at_start example_fs)) ''.''
       = Inr [''./file_abc.txt'', ''./file_42.txt'', ''./sub/file_7.txt'']
   \<and> enumerate_entries
         (example_sys\<lparr>directory_iterator := (\<lambda>f. model_iterator False (f\<lparr>nodes := rev (nodes f)\<rparr>)),
                         recursive_directory_iterator := (\<lambda>f. model_iterator True (f\<lparr>nodes := rev (nodes f)\<rparr>))\<rparr>)
         (example_args\<lparr>recursive := True\<rparr>) (fs (at_start example_fs)) ''.''
       = Inr [''./sub/file_7.txt'', ''./file_42.txt'', ''./file_abc.txt'']
   \<and> sort_entries [''./sub/file_7.txt'', ''./file_42.txt'', ''./file_abc.txt'']
       = [''./file_42.txt'', ''./file_abc.txt'', ''./sub/file_7.txt'']
   \<and> rename
         (example_sys\<lparr>directory_iterator := (\<lambda>f. model_iterator False (f\<lparr>nodes := rev (nodes f)\<rparr>)),
                         recursive_directory_iterator := (\<lambda>f. model_iterator True (f\<lparr>nodes := rev (nodes f)\<rparr>))\<rparr>)
         (example_args\<lparr>recursive := True\<rparr>) (at_start example_fs)
       = rename example_sys (example_args\<lparr>recursive := True\<rparr>) (at_start example_fs)
   \<and> cout (snd (rename example_sys (example_args\<lparr>recursive := True\<rparr>) (at_start example_fs)))
       = [''/home/u/./file_42.txt -> /home/u/./File_42.txt'',
          ''/home/u/./sub/file_7.txt -> /home/u/./sub/File_7.txt'']"
proof -
  let ?args = "example_args\<lparr>recursive := True\<rparr>"
  let ?it1 = "\<lambda>f. model_iterator False (f\<lparr>nodes := rev (nodes f)\<rparr>)"
  let ?it2 = "\<lambda>f. model_iterator True (f\<lparr>nodes := rev (nodes f)\<rparr>)"
  have pat: "regex_assign example_sys (pattern ?args) = Inr digits_regex"
    by code_simp
  have base: "resolve_path example_sys ?args = Inr ''.''"
    by code_simp
  have entries: "enumerate_entries example_sys ?args (fs (at_start example_fs)) ''.''
      = Inr [''./file_abc.txt'', ''./file_42.txt'', ''./sub/file_7.txt'']"
    by code_simp
  have "distinct (map path_key [''./file_abc.txt'', ''./file_42.txt'', ''./sub/file_7.txt''])"
    by code_simp
  then have inj: "inj_on path_key (set [''./file_abc.txt'', ''./file_42.txt'', ''./sub/file_7.txt''])"
    by (rule inj_on_distinct_map)
  have other: "enumerate_entries
      (example_sys\<lparr>directory_iterator := ?it1, recursive_directory_iterator := ?it2\<rparr>)
      ?args (fs (at_start example_fs)) ''.''
      = Inr [''./sub/file_7.txt'', ''./file_42.txt'', ''./file_abc.txt'']"
    by code_simp
  have perm: "mset [''./sub/file_7.txt'', ''./file_42.txt'', ''./file_abc.txt'']
      = mset [''./file_abc.txt'', ''./file_42.txt'', ''./sub/file_7.txt'']"
    by (simp add: add_mset_commute)
  have sorted: "sort_entries [''./sub/file_7.txt'', ''./file_42.txt'', ''./file_abc.txt'']
       = [''./file_42.txt'', ''./file_abc.txt'', ''./sub/file_7.txt'']"
    by code_simp
  have lines: "cout (snd (rename example_sys ?args (at_start example_fs)))
       = [''/home/u/./file_42.txt -> /home/u/./File_42.txt'',
          ''/home/u/./sub/file_7.txt -> /home/u/./sub/File_7.txt'']"
    by code_simp
  from entries_sorted_before_renaming[OF pat base entries inj other perm]
  have "rename (example_sys\<lparr>directory_iterator := ?it1, recursive_directory_iterator := ?it2\<rparr>)
      ?args (at_start example_fs) = rename example_sys ?args (at_start example_fs)"
    by blast
  with pat entries other sorted lines show ?thesis
    by (intro conjI)
qed

text \<open>
  Claim C3, as the code has it. The claim says that the destination of a rename keeps the
  parent directory of the source, so that a rename never moves a file across
  directories. The destination is \<open>replace_filename\<close> of the source and the computed
  file name, and a computed name with a separator in it is a path of its own: with the
  pattern \<open>_\<close> and the replacement \<open>/\<close>, the file \<open>./a_b\<close> is moved into the directory
  \<open>./a\<close>.
\<close>

theorem rename_moves_into_other_directory:
  "main example_sys slash_args (at_start slash_fs) =
     (Some 0,
      \<lparr>fs = \<lparr>nodes = [(''.'', Directory), (''./a'', Directory), (''./a/b'', Regular)]\<rparr>,
       cout = [''a_b -> b''], cerr = [],
       calls = [Iterate False ''.'', Rename ''./a_b'' ''./a/b'']\<rparr>)
   \<and> remove_filename ''./a/b'' \<noteq> remove_filename ''./a_b''"
  by code_simp

text \<open>
  Claim C3, amended. For every entry whose computed file name differs from the original
  one and holds no separator, the destination is the source with its file name
  replaced: it has the directory part of the source and the computed name as its file
  name, so the rename stays within the directory of the file.
\<close>

theorem destination_keeps_directory:
  assumes "regex_replace sys pat (filename in_entry) (replacement args) = Inr out_filename"
    and "filename in_entry \<noteq> out_filename"
    and "separator \<notin> set out_filename"
    and "\<not> dry_run args"
    and "report sys args in_entry (replace_filename in_entry out_filename) w = Some w'"
  shows "calls (snd (rename_entry sys args pat in_entry w)) =
           calls w @ [Rename in_entry (remove_filename in_entry @ out_filename)]
       \<and> remove_filename (remove_filename in_entry @ out_filename) = remove_filename in_entry
       \<and> filename (remove_filename in_entry @ out_filename) = out_filename"
proof -
  have "calls (snd (rename_entry sys args pat in_entry w)) =
      calls w @ [Rename in_entry (replace_filename in_entry out_filename)]"
    using assms(1,2,4,5) report_frame[OF assms(5)]
    by (simp add: rename_entry_changed apply_rename_calls)
  moreover have "replace_filename in_entry out_filename = remove_filename in_entry @ out_filename"
    using assms(3) by (simp add: replace_filename_relative plain_name_is_relative)
  ultimately show ?thesis
    using remove_filename_replace[OF assms(3), of in_entry] filename_replace[OF assms(3), of in_entry]
    by simp
qed

theorem destination_keeps_directory_witness:
  "regex_replace example_sys digits_regex (filename ''./sub/file_7.txt'')
       (replacement (example_args\<lparr>quiet := True\<rparr>)) = Inr ''File_7.txt''
   \<and> filename ''./sub/file_7.txt'' \<noteq> ''File_7.txt''
   \<and> separator \<notin> set ''File_7.txt''
   \<and> calls (snd (rename_entry example_sys (example_args\<lparr>quiet := True\<rparr>) digits_regex
                     ''./sub/file_7.txt'' (at_start example_fs)))
       = calls (at_start example_fs) @ [Rename ''./sub/file_7.txt'' (remove_filename ''./sub/file_7.txt'' @ ''File_7.txt'')]
   \<and> remove_filename (remove_filename ''./sub/file_7.txt'' @ ''File_7.txt'') = remove_filename ''./sub/file_7.txt''
   \<and> filename (remove_filename ''./sub/file_7.txt'' @ ''File_7.txt'') = ''File_7.txt''
   \<and> remove_filename ''./sub/file_7.txt'' @ ''File_7.txt'' = ''./sub/File_7.txt''"
proof -
  let ?args = "example_args\<lparr>quiet := True\<rparr>"
  have out: "regex_replace example_sys digits_regex (filename ''./sub/file_7.txt'')
      (replacement ?args) = Inr ''File_7.txt''"
    by code_simp
  have differs: "filename ''./sub/file_7.txt'' \<noteq> ''File_7.txt''"
    by code_simp
  have plain: "separator \<notin> set ''File_7.txt''"
    by code_simp
  have wet: "\<not> dry_run ?args"
    by code_simp
  have rep: "report example_sys ?args ''./sub/file_7.txt''
      (replace_filename ''./sub/file_7.txt'' ''File_7.txt'') (at_start example_fs)
      = Some (at_start example_fs)"
    by code_simp
  have path: "remove_filename ''./sub/file_7.txt'' @ ''File_7.txt'' = ''./sub/File_7.txt''"
    by code_simp
  from destination_keeps_directory[OF out differs plain wet rep] out differs plain path
  show ?thesis
    by (intro conjI) blast+
qed

text \<open>
  Claim C4. When the rename of an entry fails, a diagnostic with the fixed error prefix
  is written to the error stream and the run goes on with the remaining sorted entries:
  if the rename of entry A fails and the rename of a later entry B would succeed, B is
  still attempted, and the exit code of the process is 0 in spite of the failures.

  A is an entry of the sorted list, reached in the world \<open>w\<close>, whose rename fails with
  the message \<open>what\<close>. Its step reports the rename, records the call and the diagnostic,
  and returns; the run ends with exit code 0 in the world the remaining entries lead to
  from there; and every rename that the substitution asks for among them is attempted.
  The entries after A are such that the run cannot end for another reason: the
  substitution succeeds for them and, unless \<open>quiet\<close> is set, their display names exist
  (they are file names, or the current directory can be read).
\<close>

theorem failed_rename_is_isolated:
  assumes "regex_assign sys (pattern args) = Inr pat"
    and "resolve_path sys args = Inr base"
    and "enumerate_entries sys args (fs w0) base = Inr entries"
    and "sort_entries entries = before @ a # rest"
    and "rename_loop sys args pat before (w0\<lparr>calls := calls w0 @ [Iterate (recursive args) base]\<rparr>)
           = (Returned, w)"
    and "regex_replace sys pat (filename a) (replacement args) = Inr out"
    and "out \<noteq> filename a"
    and "\<not> dry_run args"
    and "report sys args a (replace_filename a out) w = Some w1"
    and "fs_rename sys (fs w) a (replace_filename a out) = Inl what"
    and "\<forall>b\<in>set rest. \<exists>out. regex_replace sys pat (filename b) (replacement args) = Inr out"
    and "quiet args \<or> display_names_exist sys args rest"
  shows "rename_entry sys args pat a w =
           (Returned, w1\<lparr>calls := calls w @ [Rename a (replace_filename a out)],
                        cerr := cerr w @ [error_prefix @ what]\<rparr>)
       \<and> main sys args w0 =
           (Some 0,
            snd (rename_loop sys args pat rest
                   (w1\<lparr>calls := calls w @ [Rename a (replace_filename a out)],
                       cerr := cerr w @ [error_prefix @ what]\<rparr>)))
       \<and> rename_calls (calls (snd (main sys args w0))) =
           rename_calls (calls w) @ (a, replace_filename a out) # planned_renames sys args pat rest"
proof -
  from report_frame[OF assms(9)] have w1: "fs w1 = fs w" "cerr w1 = cerr w" "calls w1 = calls w"
    by simp_all
  define w2 where "w2 = w1\<lparr>calls := calls w @ [Rename a (replace_filename a out)],
                      cerr := cerr w @ [error_prefix @ what]\<rparr>"
  have step: "rename_entry sys args pat a w = (Returned, w2)"
    using assms(6-10) w1 by (simp add: rename_entry_changed apply_rename_failed w2_def)
  have loop: "rename sys args w0 = rename_loop sys args pat rest w2"
    using assms(4,5) step by (simp add: rename_unfold[OF assms(1-3)] rename_loop_append)
  from rename_loop_attempts_all[OF assms(11,12,8), of w2]
  have rest: "fst (rename_loop sys args pat rest w2) = Returned"
    "rename_calls (calls (snd (rename_loop sys args pat rest w2))) =
       rename_calls (calls w2) @ planned_renames sys args pat rest"
    by simp_all
  have main: "main sys args w0 = (Some 0, snd (rename_loop sys args pat rest w2))"
    using loop rest(1) by (cases "rename_loop sys args pat rest w2") (simp add: main_def)
  have "rename_calls (calls w2) = rename_calls (calls w) @ [(a, replace_filename a out)]"
    by (simp add: w2_def rename_calls_append)
  with main rest(2) step show ?thesis
    by (simp add: w2_def)
qed

theorem failed_rename_is_isolated_witness:
  "sort_entries [''./b_old'', ''./a_old''] = [] @ ''./a_old'' # [''./b_old'']
   \<and> fs_rename example_sys old_fs ''./a_old'' (replace_filename ''./a_old'' ''a_new'')
       = Inl ''filesystem error: cannot rename: Is a directory [./a_old] [./a_new]''
   \<and> fs_rename example_sys old_fs ''./b_old'' (replace_filename ''./b_old'' ''b_new'')
       = Inr (old_fs\<lparr>nodes := [(''.'', Directory), (''./b_new'', Regular), (''./a_new'', Directory),
                               (''./a_old'', Regular)]\<rparr>)
   \<and> rename_calls (calls (snd (main example_sys old_args (at_start old_fs)))) =
       rename_calls [Iterate False ''.''] @ (''./a_old'', replace_filename ''./a_old'' ''a_new'')
         # planned_renames example_sys old_args old_regex [''./b_old'']
   \<and> main example_sys old_args (at_start old_fs) =
       (Some 0,
        \<lparr>fs = \<lparr>nodes = [(''.'', Directory), (''./b_new'', Regular), (''./a_new'', Directory),
                         (''./a_old'', Regular)]\<rparr>,
         cout = [''a_old -> a_new'', ''b_old -> b_new''],
         cerr = [''rename: filesystem error: cannot rename: Is a directory [./a_old] [./a_new]''],
         calls = [Iterate False ''.'', Rename ''./a_old'' ''./a_new'', Rename ''./b_old'' ''./b_new'']\<rparr>)"
proof -
  let ?w = "(at_start old_fs)\<lparr>calls := calls (at_start old_fs) @ [Iterate (recursive old_args) ''.'']\<rparr>"
  let ?what = "''filesystem error: cannot rename: Is a directory [./a_old] [./a_new]''"
  have pat: "regex_assign example_sys (pattern old_args) = Inr old_regex"
    by code_simp
  have base: "resolve_path example_sys old_args = Inr ''.''"
    by code_simp
  have entries: "enumerate_entries example_sys old_args (fs (at_start old_fs)) ''.''
      = Inr [''./b_old'', ''./a_old'']"
    by code_simp
  have sorted: "sort_entries [''./b_old'', ''./a_old''] = [] @ ''./a_old'' # [''./b_old'']"
    by code_simp
  have before: "rename_loop example_sys old_args old_regex [] ?w = (Returned, ?w)"
    by simp
  have out: "regex_replace example_sys old_regex (filename ''./a_old'') (replacement old_args)
      = Inr ''a_new''"
    by code_simp
  have differs: "''a_new'' \<noteq> filename ''./a_old''"
    by code_simp
  have wet: "\<not> dry_run old_args"
    by code_simp
  have rep: "report example_sys old_args ''./a_old'' (replace_filename ''./a_old'' ''a_new'') ?w
      = Some (?w\<lparr>cout := [''a_old -> a_new'']\<rparr>)"
    by code_simp
  have fails: "fs_rename example_sys (fs ?w) ''./a_old'' (replace_filename ''./a_old'' ''a_new'')
      = Inl ?what"
    by code_simp
  have "regex_replace example_sys old_regex (filename ''./b_old'') (replacement old_args)
      = Inr ''b_new''"
    by code_simp
  then have later: "\<forall>b\<in>set [''./b_old'']. \<exists>out.
      regex_replace example_sys old_regex (filename b) (replacement old_args) = Inr out"
    by simp
  have disp: "quiet old_args \<or> display_names_exist example_sys old_args [''./b_old'']"
    by code_simp
  have fails': "fs_rename example_sys old_fs ''./a_old'' (replace_filename ''./a_old'' ''a_new'')
      = Inl ?what"
    by code_simp
  have succeeds: "fs_rename example_sys old_fs ''./b_old'' (replace_filename ''./b_old'' ''b_new'')
       = Inr (old_fs\<lparr>nodes := [(''.'', Directory), (''./b_new'', Regular), (''./a_new'', Directory),
                               (''./a_old'', Regular)]\<rparr>)"
    by code_simp
  have run: "main example_sys old_args (at_start old_fs) =
       (Some 0,
        \<lparr>fs = \<lparr>nodes = [(''.'', Directory), (''./b_new'', Regular), (''./a_new'', Directory),
                         (''./a_old'', Regular)]\<rparr>,
         cout = [''a_old -> a_new'', ''b_old -> b_new''],
         cerr = [''rename: filesystem error: cannot rename: Is a directory [./a_old] [./a_new]''],
         calls = [Iterate False ''.'', Rename ''./a_old'' ''./a_new'', Rename ''./b_old'' ''./b_new'']\<rparr>)"
    by code_simp
  have trace: "calls ?w = [Iterate False ''.'']"
    by code_simp
  from failed_rename_is_isolated[OF pat base entries sorted before out differs wet rep fails later disp]
  have "rename_calls (calls (snd (main example_sys old_args (at_start old_fs)))) =
       rename_calls (calls ?w) @ (''./a_old'', replace_filename ''./a_old'' ''a_new'')
         # planned_renames example_sys old_args old_regex [''./b_old'']"
    by blast
  with sorted fails' succeeds run show ?thesis
    unfolding trace by (intro conjI)
qed

text \<open>
  Claim C5. An entry whose computed file name is the same as its file name, as it is
  whenever the pattern matches nowhere in it, is skipped: no report line is printed and
  no rename is asked of the file system for it. The step of such an entry leaves the
  world as it was, and the loop goes on as if the entry were not there.
\<close>

theorem unchanged_entry_is_skipped:
  assumes "regex_replace sys pat (filename in_entry) (replacement args) = Inr (filename in_entry)"
  shows "rename_entry sys args pat in_entry w = (Returned, w)
       \<and> rename_loop sys args pat (in_entry # entries) w = rename_loop sys args pat entries w"
  using assms by (simp add: rename_entry_same)

theorem unchanged_entry_is_skipped_witness:
  "regex_search digits_regex (filename ''./file_abc.txt'') 0 False False False = None
   \<and> regex_replace example_sys digits_regex (filename ''./file_abc.txt'') (replacement example_args)
       = Inr (filename ''./file_abc.txt'')
   \<and> rename_entry example_sys example_args digits_regex ''./file_abc.txt'' (at_start example_fs)
       = (Returned, at_start example_fs)
   \<and> rename_loop example_sys example_args digits_regex [''./file_abc.txt'', ''./file_42.txt'']
         (at_start example_fs)
       = rename_loop example_sys example_args digits_regex [''./file_42.txt''] (at_start example_fs)"
proof -
  have nowhere: "regex_search digits_regex (filename ''./file_abc.txt'') 0 False False False = None"
    by code_simp
  from unchanged_entry_is_skipped[OF file_abc_kept] nowhere file_abc_kept show ?thesis
    by (intro conjI) blast+
qed

text \<open>
  Claim C6. With \<open>dry_run\<close> set no rename is ever asked of the file system, for any entry
  and whatever matches, so the file system after the run is as it was before; what is
  computed and reported is still computed and reported. The run leaves the file system
  as it found it and issues no rename call, and an entry that gets a new name is
  reported, with the mark of a dry run, as in any other run.
\<close>

theorem dry_run_changes_nothing:
  assumes "dry_run args"
  shows "fs (snd (main sys args w)) = fs w
       \<and> rename_calls (calls (snd (main sys args w))) = rename_calls (calls w)
       \<and> (\<forall>pat e out src dst.
            regex_replace sys pat (filename e) (replacement args) = Inr out \<and> out \<noteq> filename e
            \<and> \<not> quiet args
            \<and> path_display_name sys (recursive args) e = Some src
            \<and> path_display_name sys (recursive args) (replace_filename e out) = Some dst
            \<longrightarrow> rename_entry sys args pat e w =
                  (Returned, w\<lparr>cout := cout w @ [src @ '' -> (dry run)'' @ dst]\<rparr>))"
proof -
  have "rename_entry sys args pat e w = (Returned, w\<lparr>cout := cout w @ [src @ '' -> (dry run)'' @ dst]\<rparr>)"
    if "regex_replace sys pat (filename e) (replacement args) = Inr out" "out \<noteq> filename e"
      "\<not> quiet args" "path_display_name sys (recursive args) e = Some src"
      "path_display_name sys (recursive args) (replace_filename e out) = Some dst"
    for pat e out src dst
    using that assms by (simp add: rename_entry_changed report_def report_line_def apply_rename_dry)
  with rename_dry[OF assms, of sys w] show ?thesis
    by (simp only: main_world) blast
qed

theorem dry_run_changes_nothing_witness:
  "dry_run (example_args\<lparr>dry_run := True\<rparr>)
   \<and> fs (snd (main example_sys (example_args\<lparr>dry_run := True\<rparr>) (at_start example_fs))) = example_fs
   \<and> rename_calls (calls (snd (main example_sys (example_args\<lparr>dry_run := True\<rparr>) (at_start example_fs))))
       = []
   \<and> rename_entry example_sys (example_args\<lparr>dry_run := True\<rparr>) digits_regex ''./file_42.txt''
         (at_start example_fs)
       = (Returned, (at_start example_fs)\<lparr>cout := [''file_42.txt -> (dry run)File_42.txt'']\<rparr>)
   \<and> main example_sys (example_args\<lparr>dry_run := True\<rparr>) (at_start example_fs) =
       (Some 0,
        \<lparr>fs = example_fs, cout = [''file_42.txt -> (dry run)File_42.txt''], cerr = [],
         calls = [Iterate False ''.'']\<rparr>)"
proof -
  let ?args = "example_args\<lparr>dry_run := True\<rparr>"
  have dry: "dry_run ?args"
    by code_simp
  have out: "regex_replace example_sys digits_regex (filename ''./file_42.txt'') (replacement ?args)
      = Inr ''File_42.txt''"
    by code_simp
  have differs: "''File_42.txt'' \<noteq> filename ''./file_42.txt''"
    by code_simp
  have loud: "\<not> quiet ?args"
    by code_simp
  have src: "path_display_name example_sys (recursive ?args) ''./file_42.txt''
      = Some ''file_42.txt''"
    by code_simp
  have dst: "path_display_name example_sys (recursive ?args)
      (replace_filename ''./file_42.txt'' ''File_42.txt'') = Some ''File_42.txt''"
    by code_simp
  have run: "main example_sys ?args (at_start example_fs) =
       (Some 0,
        \<lparr>fs = example_fs, cout = [''file_42.txt -> (dry run)File_42.txt''], cerr = [],
         calls = [Iterate False ''.'']\<rparr>)"
    by code_simp
  note inst = dry_run_changes_nothing[OF dry, of "example_sys" "at_start example_fs"]
  from inst have "fs (snd (main example_sys ?args (at_start example_fs))) = fs (at_start example_fs)"
    by blast
  then have same: "fs (snd (main example_sys ?args (at_start example_fs))) = example_fs"
    by (simp add: at_start_def)
  from inst have "rename_calls (calls (snd (main example_sys ?args (at_start example_fs))))
      = rename_calls (calls (at_start example_fs))"
    by blast
  then have none: "rename_calls (calls (snd (main example_sys ?args (at_start example_fs)))) = []"
    by (simp add: at_start_def)
  from inst out differs loud src dst
  have "rename_entry example_sys ?args digits_regex ''./file_42.txt'' (at_start example_fs) =
      (Returned, (at_start example_fs)\<lparr>cout := cout (at_start example_fs)
         @ [''file_42.txt'' @ '' -> (dry run)'' @ ''File_42.txt'']\<rparr>)"
    by blast
  then have line: "rename_entry example_sys ?args digits_regex ''./file_42.txt'' (at_start example_fs)
      = (Returned, (at_start example_fs)\<lparr>cout := [''file_42.txt -> (dry run)File_42.txt'']\<rparr>)"
    by (simp add: at_start_def)
  from dry same none line run show ?thesis
    by (intro conjI)
qed

text \<open>
  Claim C7. When the pattern is not a valid regular expression, compiling it fails and
  the failure is fatal: a diagnostic with the fixed prefix goes to the error stream and
  the process exits with a non-zero status, before any directory entry is enumerated,
  reported or renamed. The run ends in the world it started in but for the diagnostic:
  no call to the file system, nothing on the output stream.
\<close>

theorem invalid_pattern_is_fatal:
  assumes "regex_assign sys (pattern args) = Inl what"
  shows "rename sys args w = (Exit EXIT_FAILURE, w\<lparr>cerr := cerr w @ [error_prefix @ what]\<rparr>)
       \<and> main sys args w = (Some EXIT_FAILURE, w\<lparr>cerr := cerr w @ [error_prefix @ what]\<rparr>)
       \<and> EXIT_FAILURE \<noteq> 0"
  using assms by (simp add: rename_def main_def fatal_def report_error_def EXIT_FAILURE_def)

theorem invalid_pattern_is_fatal_witness:
  "compile ''('' = Inl error_paren
   \<and> regex_assign example_sys (pattern (example_args\<lparr>pattern := ''(''\<rparr>)) = Inl ''error_paren''
   \<and> main example_sys (example_args\<lparr>pattern := ''(''\<rparr>) (at_start example_fs) =
       (Some 1, \<lparr>fs = example_fs, cout = [], cerr = [''rename: error_paren''], calls = []\<rparr>)"
proof -
  let ?args = "example_args\<lparr>pattern := ''(''\<rparr>"
  have bad: "compile ''('' = Inl error_paren"
    by code_simp
  have refused: "regex_assign example_sys (pattern ?args) = Inl ''error_paren''"
    by code_simp
  from invalid_pattern_is_fatal[OF refused, of "at_start example_fs"]
  have "main example_sys ?args (at_start example_fs) =
      (Some EXIT_FAILURE, (at_start example_fs)\<lparr>cerr := cerr (at_start example_fs) @ [error_prefix @ ''error_paren'']\<rparr>)"
    by blast
  then have "main example_sys ?args (at_start example_fs) =
       (Some 1, \<lparr>fs = example_fs, cout = [], cerr = [''rename: error_paren''], calls = []\<rparr>)"
    by (simp add: at_start_def EXIT_FAILURE_def error_prefix_def)
  with bad refused show ?thesis
    by (intro conjI)
qed

text \<open>
  Claim C8. For every entry that is reported, the report line is the display of the
  source, the text \<open> -> \<close> and the display of the destination, with the text \<open>(dry run)\<close>
  put right before the destination, without a space, when \<open>dry_run\<close> is set. The display
  of a path is its absolute form when \<open>recursive\<close> is set and its file name otherwise.
\<close>

theorem report_line_format:
  assumes "regex_replace sys pat (filename in_entry) (replacement args) = Inr out_filename"
    and "filename in_entry \<noteq> out_filename"
    and "out_entry = replace_filename in_entry out_filename"
    and "\<not> quiet args"
    and "path_display_name sys (recursive args) in_entry = Some src"
    and "path_display_name sys (recursive args) out_entry = Some dst"
  shows "cout (snd (rename_entry sys args pat in_entry w)) =
           cout w @ [if dry_run args then src @ '' -> (dry run)'' @ dst else src @ '' -> '' @ dst]
       \<and> (if recursive args
            then absolute sys in_entry = Some src \<and> absolute sys out_entry = Some dst
            else src = filename in_entry \<and> dst = filename out_entry)"
proof -
  have "report sys args in_entry out_entry w =
      Some (w\<lparr>cout := cout w @ [report_line (dry_run args) src dst]\<rparr>)"
    using assms(4-6) by (simp add: report_def)
  with assms(1-3) have "cout (snd (rename_entry sys args pat in_entry w)) =
      cout w @ [report_line (dry_run args) src dst]"
    by (simp add: rename_entry_def apply_rename_def report_error_def Let_def split: sum.splits)
  moreover have "if recursive args
            then absolute sys in_entry = Some src \<and> absolute sys out_entry = Some dst
            else src = filename in_entry \<and> dst = filename out_entry"
    using assms(5,6) by (auto simp: path_display_name_def)
  ultimately show ?thesis
    by (simp add: report_line_def)
qed

theorem report_line_format_witness:
  "regex_replace example_sys digits_regex (filename ''./sub/file_7.txt'')
       (replacement (example_args\<lparr>recursive := True, dry_run := True\<rparr>)) = Inr ''File_7.txt''
   \<and> absolute example_sys ''./sub/file_7.txt''
       = Some ''/home/u/./sub/file_7.txt''
   \<and> absolute example_sys (replace_filename ''./sub/file_7.txt'' ''File_7.txt'')
       = Some ''/home/u/./sub/File_7.txt''
   \<and> cout (snd (rename_entry example_sys (example_args\<lparr>recursive := True, dry_run := True\<rparr>)
                    digits_regex ''./sub/file_7.txt'' (at_start example_fs)))
       = [''/home/u/./sub/file_7.txt -> (dry run)/home/u/./sub/File_7.txt'']
   \<and> cout (snd (main example_sys example_args (at_start example_fs)))
       = [''file_42.txt -> File_42.txt'']"
proof -
  let ?args = "example_args\<lparr>recursive := True, dry_run := True\<rparr>"
  have out: "regex_replace example_sys digits_regex (filename ''./sub/file_7.txt'') (replacement ?args)
      = Inr ''File_7.txt''"
    by code_simp
  have differs: "filename ''./sub/file_7.txt'' \<noteq> ''File_7.txt''"
    by code_simp
  have loud: "\<not> quiet ?args"
    by code_simp
  have src: "path_display_name example_sys (recursive ?args)
      ''./sub/file_7.txt'' = Some ''/home/u/./sub/file_7.txt''"
    by code_simp
  have dst: "path_display_name example_sys (recursive ?args)
      (replace_filename ''./sub/file_7.txt'' ''File_7.txt'') = Some ''/home/u/./sub/File_7.txt''"
    by code_simp
  have rec: "recursive ?args" and dry: "dry_run ?args"
    by code_simp+
  have plain: "cout (snd (main example_sys example_args (at_start example_fs)))
       = [''file_42.txt -> File_42.txt'']"
    by code_simp
  note inst = report_line_format[OF out differs refl loud src dst]
  from inst rec have abs: "absolute example_sys ''./sub/file_7.txt''
       = Some ''/home/u/./sub/file_7.txt''"
    "absolute example_sys (replace_filename ''./sub/file_7.txt'' ''File_7.txt'')
       = Some ''/home/u/./sub/File_7.txt''"
    by simp_all
  from inst dry have "cout (snd (rename_entry example_sys ?args digits_regex ''./sub/file_7.txt''
      (at_start example_fs))) = cout (at_start example_fs)
        @ [''/home/u/./sub/file_7.txt'' @ '' -> (dry run)'' @ ''/home/u/./sub/File_7.txt'']"
    by simp
  then have line: "cout (snd (rename_entry example_sys ?args digits_regex ''./sub/file_7.txt''
      (at_start example_fs))) = [''/home/u/./sub/file_7.txt -> (dry run)/home/u/./sub/File_7.txt'']"
    by (simp add: at_start_def)
  from out abs line plain show ?thesis
    by (intro conjI)
qed

text \<open>
  Claim C9. When the substitution engine raises an error while an entry is processed,
  the run ends there with a non-zero exit status, and every rename applied to the
  entries before it in the sorted order stays applied: this failure is not all or
  nothing. The run ends in the world that the earlier entries left, with the diagnostic
  added; the entries after it are not looked at.
\<close>

theorem substitution_error_keeps_earlier_renames:
  assumes "regex_assign sys (pattern args) = Inr pat"
    and "resolve_path sys args = Inr base"
    and "enumerate_entries sys args (fs w0) base = Inr entries"
    and "sort_entries entries = before @ in_entry # after"
    and "rename_loop sys args pat before (w0\<lparr>calls := calls w0 @ [Iterate (recursive args) base]\<rparr>)
           = (Returned, w')"
    and "regex_replace sys pat (filename in_entry) (replacement args) = Inl what"
  shows "rename_entry sys args pat in_entry w' =
           (Exit EXIT_FAILURE, w'\<lparr>cerr := cerr w' @ [error_prefix @ what]\<rparr>)
       \<and> main sys args w0 = (Some EXIT_FAILURE, w'\<lparr>cerr := cerr w' @ [error_prefix @ what]\<rparr>)
       \<and> fs (snd (main sys args w0)) = fs w'
       \<and> EXIT_FAILURE \<noteq> 0"
proof -
  have step: "rename_entry sys args pat in_entry w' =
      (Exit EXIT_FAILURE, w'\<lparr>cerr := cerr w' @ [error_prefix @ what]\<rparr>)"
    using assms(6) by (rule rename_entry_fatal)
  have "rename sys args w0 = (Exit EXIT_FAILURE, w'\<lparr>cerr := cerr w' @ [error_prefix @ what]\<rparr>)"
    using assms(4,5) step by (simp add: rename_unfold[OF assms(1-3)] rename_loop_append)
  with step show ?thesis
    by (simp add: main_def EXIT_FAILURE_def)
qed

theorem substitution_error_keeps_earlier_renames_witness:
  "sort_entries [''./ab.txt'', ''./aaaaaaaa.txt'', ''./aa.txt'']
       = [''./aa.txt''] @ ''./aaaaaaaa.txt'' # [''./ab.txt'']
   \<and> regex_replace small_sys run_regex (filename ''./aa.txt'') (replacement run_args)
       = Inr ''b.txt''
   \<and> regex_replace small_sys run_regex (filename ''./aaaaaaaa.txt'') (replacement run_args)
       = Inl ''error_stack''
   \<and> main small_sys run_args (at_start run_fs)
       = (Some 1,
          \<lparr>fs = \<lparr>nodes = [(''.'', Directory), (''./ab.txt'', Regular), (''./aaaaaaaa.txt'', Regular),
                           (''./b.txt'', Regular)]\<rparr>,
           cout = [''aa.txt -> b.txt''], cerr = [''rename: error_stack''],
           calls = [Iterate False ''.'', Rename ''./aa.txt'' ''./b.txt'']\<rparr>)"
proof -
  let ?w' = "\<lparr>fs = \<lparr>nodes = [(''.'', Directory), (''./ab.txt'', Regular), (''./aaaaaaaa.txt'', Regular),
                           (''./b.txt'', Regular)]\<rparr>,
           cout = [''aa.txt -> b.txt''], cerr = [],
           calls = [Iterate False ''.'', Rename ''./aa.txt'' ''./b.txt'']\<rparr>"
  have pat: "regex_assign small_sys (pattern run_args) = Inr run_regex"
    by code_simp
  have base: "resolve_path small_sys run_args = Inr ''.''"
    by code_simp
  have entries: "enumerate_entries small_sys run_args (fs (at_start run_fs)) ''.''
      = Inr [''./ab.txt'', ''./aaaaaaaa.txt'', ''./aa.txt'']"
    by code_simp
  have sorted: "sort_entries [''./ab.txt'', ''./aaaaaaaa.txt'', ''./aa.txt'']
       = [''./aa.txt''] @ ''./aaaaaaaa.txt'' # [''./ab.txt'']"
    by code_simp
  have before: "rename_loop small_sys run_args run_regex [''./aa.txt'']
      ((at_start run_fs)\<lparr>calls := calls (at_start run_fs) @ [Iterate (recursive run_args) ''.'']\<rparr>)
      = (Returned, ?w')"
    by code_simp
  have first: "regex_replace small_sys run_regex (filename ''./aa.txt'') (replacement run_args)
       = Inr ''b.txt''"
    by code_simp
  have raised: "regex_replace small_sys run_regex (filename ''./aaaaaaaa.txt'') (replacement run_args)
       = Inl ''error_stack''"
    by code_simp
  from substitution_error_keeps_earlier_renames[OF pat base entries sorted before raised]
  have "main small_sys run_args (at_start run_fs) =
      (Some EXIT_FAILURE, ?w'\<lparr>cerr := cerr ?w' @ [error_prefix @ ''error_stack'']\<rparr>)"
    by blast
  then have run: "main small_sys run_args (at_start run_fs)
       = (Some 1,
          \<lparr>fs = \<lparr>nodes = [(''.'', Directory), (''./ab.txt'', Regular), (''./aaaaaaaa.txt'', Regular),
                           (''./b.txt'', Regular)]\<rparr>,
           cout = [''aa.txt -> b.txt''], cerr = [''rename: error_stack''],
           calls = [Iterate False ''.'', Rename ''./aa.txt'' ''./b.txt'']\<rparr>)"
    by (simp add: EXIT_FAILURE_def error_prefix_def)
  from sorted first raised run show ?thesis
    by (intro conjI)
qed

text \<open>
  Claim C10. The quiet flag bears on the report lines only: two runs over the same
  directory that differ in nothing but the flag rename the same entries to the same
  destinations and write the same diagnostics. This is what the program's description
  of the flag says (it suppresses the messages that are not errors), and it holds
  whenever the display names are file names (\<open>quiet_only_silences\<close>). It fails when
  \<open>recursive\<close> is set and the current directory of the process cannot be determined:
  with \<open>quiet\<close> unset the program makes the paths absolute for display, outside of any
  handler, and the exception ends the process before the first rename; with \<open>quiet\<close>
  set the same run renames the file.
\<close>

theorem quiet_changes_the_outcome:
  "main lost_sys lost_args (at_start lost_fs) =
     (None, \<lparr>fs = lost_fs, cout = [], cerr = [], calls = [Iterate True ''../d'']\<rparr>)
   \<and> main lost_sys (lost_args\<lparr>quiet := True\<rparr>) (at_start lost_fs) =
     (Some 0,
      \<lparr>fs = \<lparr>nodes = [(''../d'', Directory), (''../d/b.txt'', Regular)]\<rparr>,
       cout = [], cerr = [],
       calls = [Iterate True ''../d'', Rename ''../d/a.txt'' ''../d/b.txt'']\<rparr>)"
  by code_simp

end
